theory Spec2Isabelle
  imports Main
begin

unbundle bit_operations_syntax

section \<open>Machine integers, memory and text\<close>

text \<open>
  The fixed-width unsigned integers of \<^verbatim>\<open>Hash.h\<close> are modelled as \<^typ>\<open>int\<close> with the
  wrap-around of every addition and shift written out (\<open>mod 2 ^ 32\<close>, \<open>mod 2 ^ 64\<close>).
  A byte of input or output text is a \<^typ>\<open>char\<close> (256 values, as a C \<^verbatim>\<open>char\<close>), so a
  \<^typ>\<open>string\<close> is an arbitrary byte sequence; a byte stored in a \<^verbatim>\<open>uint8_t\<close> array is
  its value \<^term>\<open>of_char c :: int\<close>.
\<close>

type_synonym uint8_t = int
type_synonym uint32_t = int
type_synonym uint64_t = int

text \<open>
  \<^verbatim>\<open>hash_util_is_little_endian\<close> tests \<^verbatim>\<open>*(char*)&num == 1\<close>. The header's configuration
  (\<^verbatim>\<open>HASH_KECCAK_LITTLE_ENDIAN 1\<close>) takes the host to be little-endian and so does the
  model: an integer object is laid out in memory least significant byte first.
\<close>

definition hash_util_is_little_endian :: bool where
  "hash_util_is_little_endian = True"

text \<open>The bytes of an \<open>n\<close>-byte integer object in memory, and the integer a byte range holds.\<close>

definition bytes_of :: "nat \<Rightarrow> int \<Rightarrow> uint8_t list" where
  "bytes_of n u = map (\<lambda>k. u div 256 ^ k mod 256) [0..<n]"

definition value_of :: "uint8_t list \<Rightarrow> int" where
  "value_of bs = foldr (\<lambda>b acc. b + 256 * acc) bs 0"

text \<open>
  \<^verbatim>\<open>HASH_DEFINE_UTIL_SWAP_ENDIAN(type)\<close>: \<^verbatim>\<open>dest.u8[k] = source.u8[sizeof(type) - k - 1]\<close>;
  \<open>n\<close> is \<^verbatim>\<open>sizeof(type)\<close>.
\<close>

definition hash_util_swap_endian :: "nat \<Rightarrow> int \<Rightarrow> int" where
  "hash_util_swap_endian n u = value_of (rev (bytes_of n u))"

definition hash_util_right_rotate_u32 :: "uint32_t \<Rightarrow> nat \<Rightarrow> uint32_t" where
  "hash_util_right_rotate_u32 n c = drop_bit c n OR (push_bit (32 - c) n mod 2 ^ 32)"

definition hash_util_right_rotate_u64 :: "uint64_t \<Rightarrow> nat \<Rightarrow> uint64_t" where
  "hash_util_right_rotate_u64 n c = drop_bit c n OR (push_bit (64 - c) n mod 2 ^ 64)"

definition hash_util_left_rotate_u32 :: "uint32_t \<Rightarrow> nat \<Rightarrow> uint32_t" where
  "hash_util_left_rotate_u32 n c = (push_bit c n mod 2 ^ 32) OR drop_bit (32 - c) n"

text \<open>
  \<^verbatim>\<open>memcpy\<close>/\<^verbatim>\<open>memset\<close> into an array: \<open>store buf off bs\<close> overwrites
  \<open>buf[off .. off + length bs)\<close>.
\<close>

definition store :: "'a list \<Rightarrow> nat \<Rightarrow> 'a list \<Rightarrow> 'a list" where
  "store buf off bs = take off buf @ bs @ drop (off + length bs) buf"

text \<open>\<^verbatim>\<open>printf\<close>'s \<^verbatim>\<open>%x\<close>, \<^verbatim>\<open>%0<width>x\<close> and \<^verbatim>\<open>%u\<close> for a non-negative value.\<close>

definition hex_chars :: string where
  "hex_chars = ''0123456789abcdef''"

function sprintf_x :: "int \<Rightarrow> string" where
  "sprintf_x u = (if u < 16 then [hex_chars ! nat u] else sprintf_x (u div 16) @ [hex_chars ! nat (u mod 16)])"
  by pat_completeness auto
termination
  by (relation "measure nat") auto

definition sprintf_0x :: "nat \<Rightarrow> int \<Rightarrow> string" where
  "sprintf_0x width u = (let d = sprintf_x u in replicate (width - length d) CHR ''0'' @ d)"

function sprintf_u :: "int \<Rightarrow> string" where
  "sprintf_u u = (if u < 10 then [''0123456789'' ! nat u] else sprintf_u (u div 10) @ [''0123456789'' ! nat (u mod 10)])"
  by pat_completeness auto
termination
  by (relation "measure nat") auto

section \<open>SHA-2 engines\<close>

text \<open>
  \<^verbatim>\<open>Hash_Private_Sha256\<close>, \<^verbatim>\<open>Hash_Private_Sha512\<close> and \<^verbatim>\<open>Hash_Private_Sha1\<close> have the
  same fields and differ in the width of the words of \<open>h\<close> (and their number) and in the
  size of \<open>buffer\<close> (64 or 128 bytes); \<open>t\<close> exists in \<^verbatim>\<open>Hash_Private_Sha512\<close> only and is
  used by SHA-512/t alone. One record models the three. \<open>transforms\<close> is a ghost field: it
  counts the calls of the engine's block transform and is read by no operation.
\<close>

record Hash_Private =
  bitlen :: uint64_t
  bufferSize :: nat
  h :: "int list"
  buffer :: "uint8_t list"
  t :: nat
  transforms :: nat

subsection \<open>SHA-256 block transform\<close>

text \<open>The table \<open>k\<close> of \<^verbatim>\<open>hash_private_sha256_compress\<close>, row by row.\<close>

definition sha256_k :: "uint32_t list" where
  "sha256_k =
    [0x428a2f98, 0x71374491, 0xb5c0fbcf, 0xe9b5dba5, 0x3956c25b, 0x59f111f1, 0x923f82a4, 0xab1c5ed5] @
    [0xd807aa98, 0x12835b01, 0x243185be, 0x550c7dc3, 0x72be5d74, 0x80deb1fe, 0x9bdc06a7, 0xc19bf174] @
    [0xe49b69c1, 0xefbe4786, 0x0fc19dc6, 0x240ca1cc, 0x2de92c6f, 0x4a7484aa, 0x5cb0a9dc, 0x76f988da] @
    [0x983e5152, 0xa831c66d, 0xb00327c8, 0xbf597fc7, 0xc6e00bf3, 0xd5a79147, 0x06ca6351, 0x14292967] @
    [0x27b70a85, 0x2e1b2138, 0x4d2c6dfc, 0x53380d13, 0x650a7354, 0x766a0abb, 0x81c2c92e, 0x92722c85] @
    [0xa2bfe8a1, 0xa81a664b, 0xc24b8b70, 0xc76c51a3, 0xd192e819, 0xd6990624, 0xf40e3585, 0x106aa070] @
    [0x19a4c116, 0x1e376c08, 0x2748774c, 0x34b0bcb5, 0x391c0cb3, 0x4ed8aa4a, 0x5b9cca4f, 0x682e6ff3] @
    [0x748f82ee, 0x78a5636f, 0x84c87814, 0x8cc70208, 0x90befffa, 0xa4506ceb, 0xbef9a3f7, 0xc67178f2]"

text \<open>One iteration of the loop of \<^verbatim>\<open>hash_private_sha256_compress\<close> on the working variables \<open>a\<close> to \<open>h\<close>.\<close>

fun sha256_round :: "uint32_t list \<Rightarrow> nat \<Rightarrow> uint32_t list \<Rightarrow> uint32_t list" where
  "sha256_round w i [a, b, c, d, e, f, g, hh] =
     (let s1 = hash_util_right_rotate_u32 e 6 XOR hash_util_right_rotate_u32 e 11 XOR hash_util_right_rotate_u32 e 25;
          ch = (e AND f) XOR (NOT e AND g);
          temp1 = (hh + s1 + ch + sha256_k ! i + w ! i) mod 2 ^ 32;
          s0 = hash_util_right_rotate_u32 a 2 XOR hash_util_right_rotate_u32 a 13 XOR hash_util_right_rotate_u32 a 22;
          maj = (a AND b) XOR (a AND c) XOR (b AND c);
          temp2 = (s0 + maj) mod 2 ^ 32
      in [(temp1 + temp2) mod 2 ^ 32, a, b, c, (d + temp1) mod 2 ^ 32, e, f, g])"
| "sha256_round w i v = v"

text \<open>The chaining value \<open>s->h\<close> after \<^verbatim>\<open>hash_private_sha256_compress(s, w)\<close>.\<close>

definition hash_private_sha256_compress :: "uint32_t list \<Rightarrow> uint32_t list \<Rightarrow> uint32_t list" where
  "hash_private_sha256_compress hs w =
     map2 (\<lambda>x v. (x + v) mod 2 ^ 32) hs (fold (sha256_round w) [0..<64] hs)"

text \<open>
  The message schedule of \<^verbatim>\<open>hash_private_sha256_transform\<close>. Every entry of the static
  array \<open>w\<close> is written before it is read, so its contents at entry do not matter.
\<close>

definition sha256_schedule :: "uint8_t list \<Rightarrow> uint32_t list" where
  "sha256_schedule buf =
     (let w0 = fold (\<lambda>i w.
                 (let c = [buf ! (4 * i), buf ! (4 * i + 1), buf ! (4 * i + 2), buf ! (4 * i + 3)]
                  in w[i := (if hash_util_is_little_endian then hash_util_swap_endian 4 (value_of c) else value_of c)]))
               [0..<16] (replicate 64 0)
      in fold (\<lambda>i w.
           (let s0 = hash_util_right_rotate_u32 (w ! (i - 15)) 7 XOR hash_util_right_rotate_u32 (w ! (i - 15)) 18 XOR drop_bit 3 (w ! (i - 15));
                s1 = hash_util_right_rotate_u32 (w ! (i - 2)) 17 XOR hash_util_right_rotate_u32 (w ! (i - 2)) 19 XOR drop_bit 10 (w ! (i - 2))
            in w[i := (w ! (i - 16) + s0 + w ! (i - 7) + s1) mod 2 ^ 32]))
         [16..<64] w0)"

definition sha256_block :: "uint32_t list \<Rightarrow> uint8_t list \<Rightarrow> uint32_t list" where
  "sha256_block hs buf = hash_private_sha256_compress hs (sha256_schedule buf)"

definition hash_private_sha256_transform :: "Hash_Private \<Rightarrow> Hash_Private" where
  "hash_private_sha256_transform s =
     s\<lparr>h := sha256_block (h s) (buffer s), transforms := transforms s + 1\<rparr>"

subsection \<open>Update and finalize\<close>

text \<open>
  \<^verbatim>\<open>hash_sha256_update_binary\<close>, \<^verbatim>\<open>hash_sha512_update_binary\<close> and
  \<^verbatim>\<open>hash_sha1_update_binary\<close> are the same loop up to the block size \<open>B\<close> (64, 128, 64),
  the bit count of a block \<open>bits\<close> (512, 1024, 512) and the transform \<open>tr\<close>. The index
  \<^verbatim>\<open>s->bufferSize++\<close> is a \<^verbatim>\<open>uint8_t\<close>. A write at an index outside the buffer does
  not occur from a state with \<open>bufferSize < B\<close>.
\<close>

fun update_binary :: "nat \<Rightarrow> int \<Rightarrow> (Hash_Private \<Rightarrow> Hash_Private) \<Rightarrow> Hash_Private \<Rightarrow> string \<Rightarrow> Hash_Private" where
  "update_binary B bits tr s [] = s"
| "update_binary B bits tr s (d # ds) =
     (let s1 = s\<lparr>buffer := (buffer s)[bufferSize s := of_char d], bufferSize := (bufferSize s + 1) mod 256\<rparr>;
          s2 = (if bufferSize s1 = B
                then (let s' = tr s1 in s'\<lparr>bufferSize := 0, bitlen := (bitlen s' + bits) mod 2 ^ 64\<rparr>)
                else s1)
      in update_binary B bits tr s2 ds)"

text \<open>
  \<^verbatim>\<open>hash_sha256_finalize\<close>, \<^verbatim>\<open>hash_sha512_finalize\<close> and \<^verbatim>\<open>hash_sha1_finalize\<close>: \<open>T\<close> is the
  threshold (56, 112, 56) and the length field always starts at \<open>B - 8\<close>.
\<close>

definition finalize :: "nat \<Rightarrow> nat \<Rightarrow> (Hash_Private \<Rightarrow> Hash_Private) \<Rightarrow> Hash_Private \<Rightarrow> Hash_Private" where
  "finalize B T tr s =
     (let start = bufferSize s;
          end = (if bufferSize s < T then B - 8 else B);
          s1 = s\<lparr>buffer := (buffer s)[start := 0x80]\<rparr>;
          start = start + 1;
          s2 = s1\<lparr>buffer := store (buffer s1) start (replicate (end - start) 0)\<rparr>;
          s3 = (if bufferSize s2 \<ge> T
                then (let s' = tr s2 in s'\<lparr>buffer := store (buffer s') 0 (replicate (B - 8) 0)\<rparr>)
                else s2);
          s4 = s3\<lparr>bitlen := (bitlen s3 + int (bufferSize s3) * 8) mod 2 ^ 64\<rparr>;
          size = (if hash_util_is_little_endian then hash_util_swap_endian 8 (bitlen s4) else bitlen s4);
          s5 = s4\<lparr>buffer := store (buffer s4) (B - 8) (bytes_of 8 size)\<rparr>
      in tr s5)"

subsection \<open>SHA-256\<close>

definition hash_sha256_init :: "Hash_Private \<Rightarrow> Hash_Private" where
  "hash_sha256_init s = s\<lparr>bitlen := 0, bufferSize := 0,
     h := [0x6a09e667, 0xbb67ae85, 0x3c6ef372, 0xa54ff53a, 0x510e527f, 0x9b05688c, 0x1f83d9ab, 0x5be0cd19]\<rparr>"

definition hash_sha256_update_binary :: "Hash_Private \<Rightarrow> string \<Rightarrow> Hash_Private" where
  "hash_sha256_update_binary = update_binary 64 512 hash_private_sha256_transform"

definition hash_sha256_finalize :: "Hash_Private \<Rightarrow> Hash_Private" where
  "hash_sha256_finalize = finalize 64 56 hash_private_sha256_transform"

definition hash_sha256_hexdigest :: "Hash_Private \<Rightarrow> string" where
  "hash_sha256_hexdigest s = concat (map (\<lambda>i. sprintf_0x 8 (h s ! i)) [0..<8])"

text \<open>
  The one-shot operation. Its local \<^verbatim>\<open>Hash_Sha256 s\<close> is declared without an initializer:
  the argument \<open>s\<close> is that indeterminate object.
\<close>

definition hash_sha256_binary :: "Hash_Private \<Rightarrow> string \<Rightarrow> string" where
  "hash_sha256_binary s str =
     hash_sha256_hexdigest (hash_sha256_finalize (hash_sha256_update_binary (hash_sha256_init s) str))"

text \<open>SHA-224 (\<^verbatim>\<open>Hash_Sha224\<close> is \<^verbatim>\<open>Hash_Sha256\<close>): its own initial value and seven words of output.\<close>

definition hash_sha224_init :: "Hash_Private \<Rightarrow> Hash_Private" where
  "hash_sha224_init s = s\<lparr>bitlen := 0, bufferSize := 0,
     h := [0xC1059ED8, 0x367CD507, 0x3070DD17, 0xF70E5939, 0xFFC00B31, 0x68581511, 0x64F98FA7, 0xBEFA4FA4]\<rparr>"

definition hash_sha224_update_binary :: "Hash_Private \<Rightarrow> string \<Rightarrow> Hash_Private" where
  "hash_sha224_update_binary s data = hash_sha256_update_binary s data"


definition hash_sha224_hexdigest :: "Hash_Private \<Rightarrow> string" where
  "hash_sha224_hexdigest s = concat (map (\<lambda>i. sprintf_0x 8 (h s ! i)) [0..<7])"

subsection \<open>SHA-512 block transform\<close>

definition sha512_k :: "uint64_t list" where
  "sha512_k =
    [0x428a2f98d728ae22, 0x7137449123ef65cd, 0xb5c0fbcfec4d3b2f, 0xe9b5dba58189dbbc, 0x3956c25bf348b538] @
    [0x59f111f1b605d019, 0x923f82a4af194f9b, 0xab1c5ed5da6d8118, 0xd807aa98a3030242, 0x12835b0145706fbe] @
    [0x243185be4ee4b28c, 0x550c7dc3d5ffb4e2, 0x72be5d74f27b896f, 0x80deb1fe3b1696b1, 0x9bdc06a725c71235] @
    [0xc19bf174cf692694, 0xe49b69c19ef14ad2, 0xefbe4786384f25e3, 0x0fc19dc68b8cd5b5, 0x240ca1cc77ac9c65] @
    [0x2de92c6f592b0275, 0x4a7484aa6ea6e483, 0x5cb0a9dcbd41fbd4, 0x76f988da831153b5, 0x983e5152ee66dfab] @
    [0xa831c66d2db43210, 0xb00327c898fb213f, 0xbf597fc7beef0ee4, 0xc6e00bf33da88fc2, 0xd5a79147930aa725] @
    [0x06ca6351e003826f, 0x142929670a0e6e70, 0x27b70a8546d22ffc, 0x2e1b21385c26c926, 0x4d2c6dfc5ac42aed] @
    [0x53380d139d95b3df, 0x650a73548baf63de, 0x766a0abb3c77b2a8, 0x81c2c92e47edaee6, 0x92722c851482353b] @
    [0xa2bfe8a14cf10364, 0xa81a664bbc423001, 0xc24b8b70d0f89791, 0xc76c51a30654be30, 0xd192e819d6ef5218] @
    [0xd69906245565a910, 0xf40e35855771202a, 0x106aa07032bbd1b8, 0x19a4c116b8d2d0c8, 0x1e376c085141ab53] @
    [0x2748774cdf8eeb99, 0x34b0bcb5e19b48a8, 0x391c0cb3c5c95a63, 0x4ed8aa4ae3418acb, 0x5b9cca4f7763e373] @
    [0x682e6ff3d6b2b8a3, 0x748f82ee5defb2fc, 0x78a5636f43172f60, 0x84c87814a1f0ab72, 0x8cc702081a6439ec] @
    [0x90befffa23631e28, 0xa4506cebde82bde9, 0xbef9a3f7b2c67915, 0xc67178f2e372532b, 0xca273eceea26619c] @
    [0xd186b8c721c0c207, 0xeada7dd6cde0eb1e, 0xf57d4f7fee6ed178, 0x06f067aa72176fba, 0x0a637dc5a2c898a6] @
    [0x113f9804bef90dae, 0x1b710b35131c471b, 0x28db77f523047d84, 0x32caab7b40c72493, 0x3c9ebe0a15c9bebc] @
    [0x431d67c49c100d4c, 0x4cc5d4becb3e42b6, 0x597f299cfc657e2a, 0x5fcb6fab3ad6faec, 0x6c44198c4a475817]"

fun sha512_round :: "uint64_t list \<Rightarrow> nat \<Rightarrow> uint64_t list \<Rightarrow> uint64_t list" where
  "sha512_round w i [a, b, c, d, e, f, g, hh] =
     (let s1 = hash_util_right_rotate_u64 e 14 XOR hash_util_right_rotate_u64 e 18 XOR hash_util_right_rotate_u64 e 41;
          ch = (e AND f) XOR (NOT e AND g);
          temp1 = (hh + s1 + ch + sha512_k ! i + w ! i) mod 2 ^ 64;
          s0 = hash_util_right_rotate_u64 a 28 XOR hash_util_right_rotate_u64 a 34 XOR hash_util_right_rotate_u64 a 39;
          maj = (a AND b) XOR (a AND c) XOR (b AND c);
          temp2 = (s0 + maj) mod 2 ^ 64
      in [(temp1 + temp2) mod 2 ^ 64, a, b, c, (d + temp1) mod 2 ^ 64, e, f, g])"
| "sha512_round w i v = v"

definition hash_private_sha512_compress :: "uint64_t list \<Rightarrow> uint64_t list \<Rightarrow> uint64_t list" where
  "hash_private_sha512_compress hs w =
     map2 (\<lambda>x v. (x + v) mod 2 ^ 64) hs (fold (sha512_round w) [0..<80] hs)"

definition sha512_schedule :: "uint8_t list \<Rightarrow> uint64_t list" where
  "sha512_schedule buf =
     (let w0 = fold (\<lambda>i w.
                 (let c = [buf ! (8 * i), buf ! (8 * i + 1), buf ! (8 * i + 2), buf ! (8 * i + 3),
                           buf ! (8 * i + 4), buf ! (8 * i + 5), buf ! (8 * i + 6), buf ! (8 * i + 7)]
                  in w[i := (if hash_util_is_little_endian then hash_util_swap_endian 8 (value_of c) else value_of c)]))
               [0..<16] (replicate 80 0)
      in fold (\<lambda>i w.
           (let s0 = hash_util_right_rotate_u64 (w ! (i - 15)) 1 XOR hash_util_right_rotate_u64 (w ! (i - 15)) 8 XOR drop_bit 7 (w ! (i - 15));
                s1 = hash_util_right_rotate_u64 (w ! (i - 2)) 19 XOR hash_util_right_rotate_u64 (w ! (i - 2)) 61 XOR drop_bit 6 (w ! (i - 2))
            in w[i := (w ! (i - 16) + s0 + w ! (i - 7) + s1) mod 2 ^ 64]))
         [16..<80] w0)"

definition sha512_block :: "uint64_t list \<Rightarrow> uint8_t list \<Rightarrow> uint64_t list" where
  "sha512_block hs buf = hash_private_sha512_compress hs (sha512_schedule buf)"

definition hash_private_sha512_transform :: "Hash_Private \<Rightarrow> Hash_Private" where
  "hash_private_sha512_transform s =
     s\<lparr>h := sha512_block (h s) (buffer s), transforms := transforms s + 1\<rparr>"

subsection \<open>SHA-512\<close>

definition hash_sha512_init :: "Hash_Private \<Rightarrow> Hash_Private" where
  "hash_sha512_init s = s\<lparr>bitlen := 0, bufferSize := 0,
     h := [0x6a09e667f3bcc908, 0xbb67ae8584caa73b, 0x3c6ef372fe94f82b, 0xa54ff53a5f1d36f1,
           0x510e527fade682d1, 0x9b05688c2b3e6c1f, 0x1f83d9abfb41bd6b, 0x5be0cd19137e2179]\<rparr>"

definition hash_sha512_reset :: "Hash_Private \<Rightarrow> Hash_Private" where
  "hash_sha512_reset s = s\<lparr>bitlen := 0, bufferSize := 0\<rparr>"

definition hash_sha512_update_binary :: "Hash_Private \<Rightarrow> string \<Rightarrow> Hash_Private" where
  "hash_sha512_update_binary = update_binary 128 1024 hash_private_sha512_transform"

text \<open>\<^verbatim>\<open>strlen\<close>: the bytes of a C string before its first NUL.\<close>

definition strlen_prefix :: "string \<Rightarrow> string" where
  "strlen_prefix data = takeWhile (\<lambda>c. c \<noteq> CHR 0x00) data"

definition hash_sha512_update :: "Hash_Private \<Rightarrow> string \<Rightarrow> Hash_Private" where
  "hash_sha512_update s data = hash_sha512_update_binary s (strlen_prefix data)"

definition hash_sha512_finalize :: "Hash_Private \<Rightarrow> Hash_Private" where
  "hash_sha512_finalize = finalize 128 112 hash_private_sha512_transform"

definition hash_sha512_hexdigest :: "Hash_Private \<Rightarrow> string" where
  "hash_sha512_hexdigest s = concat (map (\<lambda>i. sprintf_0x 16 (h s ! i)) [0..<8])"


subsection \<open>SHA-384\<close>

definition hash_sha384_init :: "Hash_Private \<Rightarrow> Hash_Private" where
  "hash_sha384_init s = s\<lparr>bitlen := 0, bufferSize := 0,
     h := [0xcbbb9d5dc1059ed8, 0x629a292a367cd507, 0x9159015a3070dd17, 0x152fecd8f70e5939,
           0x67332667ffc00b31, 0x8eb44a8768581511, 0xdb0c2e0d64f98fa7, 0x47b5481dbefa4fa4]\<rparr>"

definition hash_sha384_update_binary :: "Hash_Private \<Rightarrow> string \<Rightarrow> Hash_Private" where
  "hash_sha384_update_binary s data = hash_sha512_update_binary s data"


definition hash_sha384_hexdigest :: "Hash_Private \<Rightarrow> string" where
  "hash_sha384_hexdigest s = concat (map (\<lambda>i. sprintf_0x 16 (h s ! i)) [0..<6])"

subsection \<open>SHA-512/t\<close>

text \<open>
  An \<^verbatim>\<open>assert\<close> that fails ends the call before the next statement; a \<^verbatim>\<open>static_assert\<close>
  that fails rejects the instantiation. Both are failure values of the model. The header
  does not define \<^verbatim>\<open>NDEBUG\<close>.
\<close>

datatype failure = Assertion_failed string | Static_assertion_failed string

text \<open>
  \<^verbatim>\<open>strtoull(hex, NULL, 16)\<close> on a string of hexadecimal digits: the digits are read up to
  the first character that is none, and a value beyond \<^verbatim>\<open>ULLONG_MAX\<close> is returned as
  \<^verbatim>\<open>ULLONG_MAX\<close>. (Leading white space, a sign and a \<^verbatim>\<open>0x\<close> prefix, which \<^verbatim>\<open>strtoull\<close>
  also accepts, do not occur in the output of \<^verbatim>\<open>%016x\<close>.)
\<close>

definition hexval :: "char \<Rightarrow> int option" where
  "hexval c =
     (let n = of_char c :: int
      in if 48 \<le> n \<and> n \<le> 57 then Some (n - 48)
         else if 97 \<le> n \<and> n \<le> 102 then Some (n - 87)
         else if 65 \<le> n \<and> n \<le> 70 then Some (n - 55)
         else None)"

fun strtoull_digits :: "int \<Rightarrow> string \<Rightarrow> int" where
  "strtoull_digits acc [] = acc"
| "strtoull_digits acc (c # cs) =
     (case hexval c of None \<Rightarrow> acc | Some v \<Rightarrow> strtoull_digits (acc * 16 + v) cs)"

definition strtoull16 :: "string \<Rightarrow> uint64_t" where
  "strtoull16 hex = min (strtoull_digits 0 hex) (2 ^ 64 - 1)"

definition sha512t_seed :: "uint64_t list" where
  "sha512t_seed = [0xcfac43c256196cad, 0x1ec20b20216f029e, 0x99cb56d75b315d8e, 0x00ea509ffab89354,
                   0xf4abf7da08432774, 0x3ea0cd298e9bc9ba, 0xba267c0e5ee418ce, 0xfe4568bcb6db84dc]"

text \<open>
  The statements of \<^verbatim>\<open>hash_sha512t_init\<close> after its assertions, with the label \<open>str\<close> that
  \<^verbatim>\<open>sprintf\<close> has written.
\<close>

definition sha512t_derive :: "Hash_Private \<Rightarrow> nat \<Rightarrow> string \<Rightarrow> Hash_Private" where
  "sha512t_derive s t' str =
     (let s1 = s\<lparr>bitlen := 0, bufferSize := 0, h := sha512t_seed, t := t'\<rparr>;
          s2 = hash_sha512_update s1 str;
          s3 = hash_sha512_finalize s2;
          buff = hash_sha512_hexdigest s3;
          s4 = hash_sha512_reset s3
      in s4\<lparr>h := map (\<lambda>k. strtoull16 (take 16 (drop (16 * k) buff))) [0..<8]\<rparr>)"

definition hash_sha512t_init :: "Hash_Private \<Rightarrow> nat \<Rightarrow> failure + Hash_Private" where
  "hash_sha512t_init s t' =
     (if \<not> t' \<noteq> 384 then Inl (Assertion_failed ''t = 384 is not allowed use Hash_Sha384 instead!'')
      else if \<not> (t' \<ge> 4 \<and> t' \<le> 2048) then Inl (Assertion_failed ''t must satisfy t >= 4 && t <= 2048!'')
      else Inr (sha512t_derive s t' (''SHA-512/'' @ sprintf_u (int t' mod 2 ^ 32))))"

definition hash_sha512t_update_binary :: "Hash_Private \<Rightarrow> string \<Rightarrow> Hash_Private" where
  "hash_sha512t_update_binary s data = hash_sha512_update_binary s data"






section \<open>SHA-1\<close>

text \<open>The loop of \<^verbatim>\<open>hash_private_hash_sha1_transform\<close> over \<open>i = 0 .. 79\<close>.\<close>

fun sha1_round :: "uint32_t list \<Rightarrow> nat \<Rightarrow> uint32_t list \<Rightarrow> uint32_t list" where
  "sha1_round w i [a, b, c, d, e] =
     (let (f, k) =
            (if i \<le> 19 then ((b AND c) OR (NOT b AND d), 0x5A827999)
             else if i \<ge> 20 \<and> i \<le> 39 then (b XOR c XOR d, 0x6ED9EBA1)
             else if i \<ge> 40 \<and> i \<le> 59 then ((b AND c) OR (b AND d) OR (c AND d), 0x8F1BBCDC)
             else (b XOR c XOR d, 0xCA62C1D6));
          tmp = (hash_util_left_rotate_u32 a 5 + f + e + k + w ! i) mod 2 ^ 32
      in [tmp, a, hash_util_left_rotate_u32 b 30, c, d])"
| "sha1_round w i v = v"

definition sha1_schedule :: "uint8_t list \<Rightarrow> uint32_t list" where
  "sha1_schedule buf =
     (let w0 = fold (\<lambda>i w.
                 (let ptr = [buf ! (4 * i), buf ! (4 * i + 1), buf ! (4 * i + 2), buf ! (4 * i + 3)]
                  in w[i := (if hash_util_is_little_endian then hash_util_swap_endian 4 (value_of ptr) else value_of ptr)]))
               [0..<16] (replicate 80 0)
      in fold (\<lambda>i w. w[i := hash_util_left_rotate_u32 (w ! (i - 3) XOR w ! (i - 8) XOR w ! (i - 14) XOR w ! (i - 16)) 1])
         [16..<80] w0)"

definition sha1_block :: "uint32_t list \<Rightarrow> uint8_t list \<Rightarrow> uint32_t list" where
  "sha1_block hs buf =
     map2 (\<lambda>x v. (x + v) mod 2 ^ 32) hs (fold (sha1_round (sha1_schedule buf)) [0..<80] hs)"

definition hash_private_hash_sha1_transform :: "Hash_Private \<Rightarrow> Hash_Private" where
  "hash_private_hash_sha1_transform s =
     s\<lparr>h := sha1_block (h s) (buffer s), transforms := transforms s + 1\<rparr>"

definition hash_sha1_init :: "Hash_Private \<Rightarrow> Hash_Private" where
  "hash_sha1_init s = s\<lparr>bitlen := 0, bufferSize := 0,
     h := [0x67452301, 0xEFCDAB89, 0x98BADCFE, 0x10325476, 0xC3D2E1F0]\<rparr>"

definition hash_sha1_update_binary :: "Hash_Private \<Rightarrow> string \<Rightarrow> Hash_Private" where
  "hash_sha1_update_binary = update_binary 64 512 hash_private_hash_sha1_transform"

definition hash_sha1_finalize :: "Hash_Private \<Rightarrow> Hash_Private" where
  "hash_sha1_finalize = finalize 64 56 hash_private_hash_sha1_transform"

definition hash_sha1_hexdigest :: "Hash_Private \<Rightarrow> string" where
  "hash_sha1_hexdigest s = concat (map (\<lambda>i. sprintf_0x 8 (h s ! i)) [0..<5])"

definition hash_sha1_binary :: "Hash_Private \<Rightarrow> string \<Rightarrow> string" where
  "hash_sha1_binary s str =
     hash_sha1_hexdigest (hash_sha1_finalize (hash_sha1_update_binary (hash_sha1_init s) str))"

section \<open>MD5\<close>

text \<open>
  \<^verbatim>\<open>Hash_Private_MD5\<close>. Its \<^verbatim>\<open>buffer\<close> is the field \<open>buffer_md5\<close> here, and
  \<open>transforms_md5\<close> is the ghost count of the calls of \<^verbatim>\<open>hash_private_md5_transform\<close>.
\<close>

record Hash_Private_MD5 =
  finalized :: bool
  buffer_md5 :: "uint8_t list"
  count :: "uint32_t list"
  state :: "uint32_t list"
  digest :: "uint8_t list"
  transforms_md5 :: nat

definition hash_private_md5_F :: "uint32_t \<Rightarrow> uint32_t \<Rightarrow> uint32_t \<Rightarrow> uint32_t" where
  "hash_private_md5_F x y z = (x AND y) OR (NOT x AND z)"

definition hash_private_md5_G :: "uint32_t \<Rightarrow> uint32_t \<Rightarrow> uint32_t \<Rightarrow> uint32_t" where
  "hash_private_md5_G x y z = (x AND z) OR (y AND NOT z)"

definition hash_private_md5_H :: "uint32_t \<Rightarrow> uint32_t \<Rightarrow> uint32_t \<Rightarrow> uint32_t" where
  "hash_private_md5_H x y z = x XOR y XOR z"

definition hash_private_md5_I :: "uint32_t \<Rightarrow> uint32_t \<Rightarrow> uint32_t \<Rightarrow> uint32_t" where
  "hash_private_md5_I x y z = y XOR ((x OR NOT z) mod 2 ^ 32)"

definition hash_private_md5_rotate_left :: "uint32_t \<Rightarrow> nat \<Rightarrow> uint32_t" where
  "hash_private_md5_rotate_left x n = (push_bit n x mod 2 ^ 32) OR drop_bit (32 - n) x"

definition hash_private_md5_FF :: "uint32_t \<Rightarrow> uint32_t \<Rightarrow> uint32_t \<Rightarrow> uint32_t \<Rightarrow> uint32_t \<Rightarrow> nat \<Rightarrow> uint32_t \<Rightarrow> uint32_t" where
  "hash_private_md5_FF a b c d x s ac =
     (hash_private_md5_rotate_left ((a + hash_private_md5_F b c d + x + ac) mod 2 ^ 32) s + b) mod 2 ^ 32"

definition hash_private_md5_GG :: "uint32_t \<Rightarrow> uint32_t \<Rightarrow> uint32_t \<Rightarrow> uint32_t \<Rightarrow> uint32_t \<Rightarrow> nat \<Rightarrow> uint32_t \<Rightarrow> uint32_t" where
  "hash_private_md5_GG a b c d x s ac =
     (hash_private_md5_rotate_left ((a + hash_private_md5_G b c d + x + ac) mod 2 ^ 32) s + b) mod 2 ^ 32"

definition hash_private_md5_HH :: "uint32_t \<Rightarrow> uint32_t \<Rightarrow> uint32_t \<Rightarrow> uint32_t \<Rightarrow> uint32_t \<Rightarrow> nat \<Rightarrow> uint32_t \<Rightarrow> uint32_t" where
  "hash_private_md5_HH a b c d x s ac =
     (hash_private_md5_rotate_left ((a + hash_private_md5_H b c d + x + ac) mod 2 ^ 32) s + b) mod 2 ^ 32"

definition hash_private_md5_II :: "uint32_t \<Rightarrow> uint32_t \<Rightarrow> uint32_t \<Rightarrow> uint32_t \<Rightarrow> uint32_t \<Rightarrow> nat \<Rightarrow> uint32_t \<Rightarrow> uint32_t" where
  "hash_private_md5_II a b c d x s ac =
     (hash_private_md5_rotate_left ((a + hash_private_md5_I b c d + x + ac) mod 2 ^ 32) s + b) mod 2 ^ 32"

text \<open>\<^verbatim>\<open>hash_private_md5_decode\<close> and \<^verbatim>\<open>hash_private_md5_encode\<close>; \<open>len\<close> is a multiple of 4.\<close>

definition hash_private_md5_decode :: "uint8_t list \<Rightarrow> nat \<Rightarrow> uint32_t list" where
  "hash_private_md5_decode input len =
     map (\<lambda>i. input ! (4 * i) OR push_bit 8 (input ! (4 * i + 1)) OR
               push_bit 16 (input ! (4 * i + 2)) OR push_bit 24 (input ! (4 * i + 3))) [0..<len div 4]"

definition hash_private_md5_encode :: "uint32_t list \<Rightarrow> nat \<Rightarrow> uint8_t list" where
  "hash_private_md5_encode input len =
     concat (map (\<lambda>i. [input ! i AND 0xff, drop_bit 8 (input ! i) AND 0xff,
                        drop_bit 16 (input ! i) AND 0xff, drop_bit 24 (input ! i) AND 0xff]) [0..<len div 4])"

text \<open>
  The 64 assignments of \<^verbatim>\<open>hash_private_md5_transform\<close>, one row each: the variable
  assigned, the round function, the index into \<open>x\<close>, the shift (\<^verbatim>\<open>S11\<close> to \<^verbatim>\<open>S44\<close>) and
  the constant. The arguments of the round function are the four variables starting at the
  assigned one, in the order \<open>a, b, c, d\<close> taken cyclically backwards
  (\<^verbatim>\<open>a = FF(a, b, c, d, ...)\<close>, \<^verbatim>\<open>d = FF(d, a, b, c, ...)\<close>, \<^verbatim>\<open>c = FF(c, d, a, b, ...)\<close>,
  \<^verbatim>\<open>b = FF(b, c, d, a, ...)\<close>).
\<close>

datatype md5_var = Var_a | Var_b | Var_c | Var_d

datatype md5_fn = FF | GG | HH | II

definition md5_table :: "(md5_var \<times> md5_fn \<times> nat \<times> nat \<times> uint32_t) list" where
  "md5_table =
    [(Var_a, FF, 0, 7, 0xd76aa478), (Var_d, FF, 1, 12, 0xe8c7b756),
     (Var_c, FF, 2, 17, 0x242070db), (Var_b, FF, 3, 22, 0xc1bdceee),
     (Var_a, FF, 4, 7, 0xf57c0faf), (Var_d, FF, 5, 12, 0x4787c62a),
     (Var_c, FF, 6, 17, 0xa8304613), (Var_b, FF, 7, 22, 0xfd469501),
     (Var_a, FF, 8, 7, 0x698098d8), (Var_d, FF, 9, 12, 0x8b44f7af),
     (Var_c, FF, 10, 17, 0xffff5bb1), (Var_b, FF, 11, 22, 0x895cd7be),
     (Var_a, FF, 12, 7, 0x6b901122), (Var_d, FF, 13, 12, 0xfd987193),
     (Var_c, FF, 14, 17, 0xa679438e), (Var_b, FF, 15, 22, 0x49b40821),
     (Var_a, GG, 1, 5, 0xf61e2562), (Var_d, GG, 6, 9, 0xc040b340),
     (Var_c, GG, 11, 14, 0x265e5a51), (Var_b, GG, 0, 20, 0xe9b6c7aa),
     (Var_a, GG, 5, 5, 0xd62f105d), (Var_d, GG, 10, 9, 0x2441453),
     (Var_c, GG, 15, 14, 0xd8a1e681), (Var_b, GG, 4, 20, 0xe7d3fbc8),
     (Var_a, GG, 9, 5, 0x21e1cde6), (Var_d, GG, 14, 9, 0xc33707d6),
     (Var_c, GG, 3, 14, 0xf4d50d87), (Var_b, GG, 8, 20, 0x455a14ed),
     (Var_a, GG, 13, 5, 0xa9e3e905), (Var_d, GG, 2, 9, 0xfcefa3f8),
     (Var_c, GG, 7, 14, 0x676f02d9), (Var_b, GG, 12, 20, 0x8d2a4c8a),
     (Var_a, HH, 5, 4, 0xfffa3942), (Var_d, HH, 8, 11, 0x8771f681),
     (Var_c, HH, 11, 16, 0x6d9d6122), (Var_b, HH, 14, 23, 0xfde5380c),
     (Var_a, HH, 1, 4, 0xa4beea44), (Var_d, HH, 4, 11, 0x4bdecfa9),
     (Var_c, HH, 7, 16, 0xf6bb4b60), (Var_b, HH, 10, 23, 0xbebfbc70),
     (Var_a, HH, 13, 4, 0x289b7ec6), (Var_d, HH, 0, 11, 0xeaa127fa),
     (Var_c, HH, 3, 16, 0xd4ef3085), (Var_b, HH, 6, 23, 0x4881d05),
     (Var_a, HH, 9, 4, 0xd9d4d039), (Var_d, HH, 12, 11, 0xe6db99e5),
     (Var_c, HH, 15, 16, 0x1fa27cf8), (Var_b, HH, 2, 23, 0xc4ac5665),
     (Var_a, II, 0, 6, 0xf4292244), (Var_d, II, 7, 10, 0x432aff97),
     (Var_c, II, 14, 15, 0xab9423a7), (Var_b, II, 5, 21, 0xfc93a039),
     (Var_a, II, 12, 6, 0x655b59c3), (Var_d, II, 3, 10, 0x8f0ccc92),
     (Var_c, II, 10, 15, 0xffeff47d), (Var_b, II, 1, 21, 0x85845dd1),
     (Var_a, II, 8, 6, 0x6fa87e4f), (Var_d, II, 15, 10, 0xfe2ce6e0),
     (Var_c, II, 6, 15, 0xa3014314), (Var_b, II, 13, 21, 0x4e0811a1),
     (Var_a, II, 4, 6, 0xf7537e82), (Var_d, II, 11, 10, 0xbd3af235),
     (Var_c, II, 2, 15, 0x2ad7d2bb), (Var_b, II, 9, 21, 0xeb86d391)]"

fun md5_apply :: "md5_fn \<Rightarrow> uint32_t \<Rightarrow> uint32_t \<Rightarrow> uint32_t \<Rightarrow> uint32_t \<Rightarrow> uint32_t \<Rightarrow> nat \<Rightarrow> uint32_t \<Rightarrow> uint32_t" where
  "md5_apply FF = hash_private_md5_FF"
| "md5_apply GG = hash_private_md5_GG"
| "md5_apply HH = hash_private_md5_HH"
| "md5_apply II = hash_private_md5_II"

fun md5_step :: "uint32_t list \<Rightarrow> md5_var \<times> md5_fn \<times> nat \<times> nat \<times> uint32_t \<Rightarrow> uint32_t list \<Rightarrow> uint32_t list" where
  "md5_step x (Var_a, fn, k, s, ac) [a, b, c, d] = [md5_apply fn a b c d (x ! k) s ac, b, c, d]"
| "md5_step x (Var_d, fn, k, s, ac) [a, b, c, d] = [a, b, c, md5_apply fn d a b c (x ! k) s ac]"
| "md5_step x (Var_c, fn, k, s, ac) [a, b, c, d] = [a, b, md5_apply fn c d a b (x ! k) s ac, d]"
| "md5_step x (Var_b, fn, k, s, ac) [a, b, c, d] = [a, md5_apply fn b c d a (x ! k) s ac, c, d]"
| "md5_step x r v = v"

definition md5_steps :: "uint32_t list \<Rightarrow> uint32_t list \<Rightarrow> uint32_t list" where
  "md5_steps x v = fold (md5_step x) md5_table v"

definition md5_block :: "uint32_t list \<Rightarrow> uint8_t list \<Rightarrow> uint32_t list" where
  "md5_block st block =
     map2 (\<lambda>u v. (u + v) mod 2 ^ 32) st (md5_steps (hash_private_md5_decode block 64) st)"

definition hash_private_md5_transform :: "Hash_Private_MD5 \<Rightarrow> uint8_t list \<Rightarrow> Hash_Private_MD5" where
  "hash_private_md5_transform m block =
     m\<lparr>state := md5_block (state m) block, transforms_md5 := transforms_md5 m + 1\<rparr>"

text \<open>
  The loop \<^verbatim>\<open>for (i = firstpart; i + 64 <= s; i += 64)\<close> of
  \<^verbatim>\<open>hash_private_md5_update_binary\<close>, on \<^verbatim>\<open>uint32_t\<close>: \<open>i + 64\<close> and \<open>i += 64\<close> wrap. A run
  that does not leave the loop is \<open>None\<close>.
\<close>

partial_function (option) md5_loop :: "Hash_Private_MD5 \<Rightarrow> uint8_t list \<Rightarrow> int \<Rightarrow> int \<Rightarrow> (Hash_Private_MD5 \<times> int) option" where
  "md5_loop m input s i =
     (if (i + 64) mod 2 ^ 32 \<le> s
      then md5_loop (hash_private_md5_transform m (take 64 (drop (nat i) input))) input s ((i + 64) mod 2 ^ 32)
      else Some (m, i))"

text \<open>
  \<^verbatim>\<open>hash_private_md5_update_binary(m, input, size)\<close> with \<open>size = length input\<close>;
  \<open>s = (uint32_t)size\<close>.
\<close>

definition hash_private_md5_update_binary :: "Hash_Private_MD5 \<Rightarrow> uint8_t list \<Rightarrow> Hash_Private_MD5 option" where
  "hash_private_md5_update_binary m input =
     (let s = int (length input) mod 2 ^ 32;
          index = count m ! 0 div 8 mod 64;
          s3 = (s * 8) mod 2 ^ 32;
          c0 = (count m ! 0 + s3) mod 2 ^ 32;
          c1 = (if c0 < s3 then (count m ! 1 + 1) mod 2 ^ 32 else count m ! 1);
          c1 = (c1 + s div 2 ^ 29) mod 2 ^ 32;
          m1 = m\<lparr>count := [c0, c1]\<rparr>;
          firstpart = 64 - index
      in if s \<ge> firstpart
         then (let m2 = m1\<lparr>buffer_md5 := store (buffer_md5 m1) (nat index) (take (nat firstpart) input)\<rparr>;
                   m3 = hash_private_md5_transform m2 (buffer_md5 m2)
               in case md5_loop m3 input s firstpart of
                    None \<Rightarrow> None
                  | Some (m4, i) \<Rightarrow>
                      Some (m4\<lparr>buffer_md5 := store (buffer_md5 m4) 0 (take (nat (s - i)) (drop (nat i) input))\<rparr>))
         else Some (m1\<lparr>buffer_md5 := store (buffer_md5 m1) (nat index) (take (nat s) input)\<rparr>))"

definition hash_md5_init :: "Hash_Private_MD5 \<Rightarrow> Hash_Private_MD5" where
  "hash_md5_init m = m\<lparr>finalized := False, count := [0, 0],
     state := [0x67452301, 0xefcdab89, 0x98badcfe, 0x10325476]\<rparr>"

definition hash_md5_update_binary :: "Hash_Private_MD5 \<Rightarrow> string \<Rightarrow> Hash_Private_MD5 option" where
  "hash_md5_update_binary m data = hash_private_md5_update_binary m (map of_char data)"

definition md5_padding :: "uint8_t list" where
  "md5_padding = 0x80 # replicate 63 0"

definition hash_md5_finalize :: "Hash_Private_MD5 \<Rightarrow> Hash_Private_MD5 option" where
  "hash_md5_finalize m =
     (if \<not> finalized m
      then (let bits = hash_private_md5_encode (count m) 8;
                index = count m ! 0 div 8 mod 64;
                padLen = (if index < 56 then 56 - index else 120 - index)
            in case hash_private_md5_update_binary m (take (nat padLen) md5_padding) of
                 None \<Rightarrow> None
               | Some m1 \<Rightarrow>
                   (case hash_private_md5_update_binary m1 bits of
                      None \<Rightarrow> None
                    | Some m2 \<Rightarrow>
                        Some (m2\<lparr>digest := hash_private_md5_encode (state m2) 16,
                                 buffer_md5 := replicate 64 0, count := [0, 0], finalized := True\<rparr>)))
      else Some m)"

text \<open>
  \<^verbatim>\<open>hash_md5_hexdigest\<close> takes its engine as \<^verbatim>\<open>const Hash_MD5\<close>; the model returns the
  engine it leaves behind together with the string.
\<close>

definition hash_md5_hexdigest :: "Hash_Private_MD5 \<Rightarrow> string \<times> Hash_Private_MD5" where
  "hash_md5_hexdigest m =
     (if \<not> finalized m then ('''', m)
      else (concat (map (\<lambda>i. sprintf_0x 2 (digest m ! i)) [0..<16]), m))"

definition hash_md5_binary :: "Hash_Private_MD5 \<Rightarrow> string \<Rightarrow> string option" where
  "hash_md5_binary m str =
     (case hash_md5_update_binary (hash_md5_init m) str of
        None \<Rightarrow> None
      | Some m1 \<Rightarrow> (case hash_md5_finalize m1 of None \<Rightarrow> None | Some m2 \<Rightarrow> Some (fst (hash_md5_hexdigest m2))))"

declare md5_loop.simps [code]

text \<open>
  A caller that feeds an engine chunk by chunk: \<^verbatim>\<open>hash_md5_init\<close>, one
  \<^verbatim>\<open>hash_md5_update_binary\<close> for each chunk in order, \<^verbatim>\<open>hash_md5_finalize\<close> and
  \<^verbatim>\<open>hash_md5_hexdigest\<close>.
\<close>

fun md5_updates :: "Hash_Private_MD5 \<Rightarrow> string list \<Rightarrow> Hash_Private_MD5 option" where
  "md5_updates m [] = Some m"
| "md5_updates m (c # cs) =
     (case hash_md5_update_binary m c of None \<Rightarrow> None | Some m' \<Rightarrow> md5_updates m' cs)"

definition md5_stream :: "Hash_Private_MD5 \<Rightarrow> string list \<Rightarrow> string option" where
  "md5_stream m cs =
     (case md5_updates (hash_md5_init m) cs of
        None \<Rightarrow> None
      | Some m1 \<Rightarrow> (case hash_md5_finalize m1 of None \<Rightarrow> None | Some m2 \<Rightarrow> Some (fst (hash_md5_hexdigest m2))))"

section \<open>File hashing\<close>

text \<open>
  The files that can be opened and read, with their contents: \<open>fs path = None\<close> when
  \<^verbatim>\<open>fopen\<close> (or \<^verbatim>\<open>std::ifstream\<close>) does not open \<open>path\<close>. A failing \<^verbatim>\<open>malloc\<close> and a
  short \<^verbatim>\<open>fread\<close> are not modelled.
\<close>

type_synonym files = "string \<Rightarrow> string option"

text \<open>\<^verbatim>\<open>hash_util_load_file\<close>: \<open>None\<close> is the \<^verbatim>\<open>NULL\<close> it returns.\<close>

definition hash_util_load_file :: "files \<Rightarrow> string \<Rightarrow> string option" where
  "hash_util_load_file fs path = (case fs path of None \<Rightarrow> None | Some content \<Rightarrow> Some content)"

definition hash_util_hash_file :: "files \<Rightarrow> string \<Rightarrow> (string \<Rightarrow> string) \<Rightarrow> string" where
  "hash_util_hash_file fs path hashfunc =
     (case hash_util_load_file fs path of None \<Rightarrow> '''' | Some content \<Rightarrow> hashfunc content)"

definition hash_sha256_file :: "files \<Rightarrow> Hash_Private \<Rightarrow> string \<Rightarrow> string" where
  "hash_sha256_file fs s path = hash_util_hash_file fs path (hash_sha256_binary s)"

definition hash_sha256_file_easy :: "files \<Rightarrow> Hash_Private \<Rightarrow> string \<Rightarrow> string" where
  "hash_sha256_file_easy fs s path = hash_util_hash_file fs path (hash_sha256_binary s)"

text \<open>
  The C++ interface. \<^verbatim>\<open>Hash::Sha256\<close> has the members and the member functions of the C
  engine (\<^verbatim>\<open>Update\<close>, \<^verbatim>\<open>Finalize\<close> and \<^verbatim>\<open>Hexdigest\<close> are the statements of
  \<^verbatim>\<open>hash_sha256_update_binary\<close>, \<^verbatim>\<open>hash_sha256_finalize\<close> and \<^verbatim>\<open>hash_sha256_hexdigest\<close>), and
  its default member initializers are the assignments of \<^verbatim>\<open>hash_sha256_init\<close>.
\<close>

definition Hash_Util_LoadFile :: "files \<Rightarrow> string \<Rightarrow> string" where
  "Hash_Util_LoadFile fs path = (case fs path of None \<Rightarrow> '''' | Some content \<Rightarrow> content)"

definition Hash_sha256 :: "Hash_Private \<Rightarrow> string \<Rightarrow> string" where
  "Hash_sha256 s str =
     hash_sha256_hexdigest (hash_sha256_finalize (hash_sha256_update_binary (hash_sha256_init s) str))"

definition Hash_File_sha256 :: "files \<Rightarrow> Hash_Private \<Rightarrow> string \<Rightarrow> string" where
  "Hash_File_sha256 fs s path = Hash_sha256 s (Hash_Util_LoadFile fs path)"

section \<open>Keccak\<close>

text \<open>
  The 200 bytes of \<^verbatim>\<open>state\<close> and a ghost count of the calls of
  \<^verbatim>\<open>hash_private_keccak_KeccakF1600_StatePermute\<close>.
\<close>

record sponge =
  bytes :: "uint8_t list"
  permutations :: nat

definition HASH_PRIVATE_KECCAK_ROL64 :: "uint64_t \<Rightarrow> nat \<Rightarrow> uint64_t" where
  "HASH_PRIVATE_KECCAK_ROL64 a offset = (push_bit offset a mod 2 ^ 64) XOR drop_bit (64 - offset) a"

definition HASH_PRIVATE_KECCAK_I :: "nat \<Rightarrow> nat \<Rightarrow> nat" where
  "HASH_PRIVATE_KECCAK_I x y = x + 5 * y"

text \<open>
  With \<^verbatim>\<open>HASH_KECCAK_LITTLE_ENDIAN == 1\<close> the lane macros index \<^verbatim>\<open>(uint64_t*)state\<close>; the
  permutation is modelled on the 25 lanes, read from and written back to the bytes.
\<close>

definition HASH_PRIVATE_KECCAK_READLANE :: "uint64_t list \<Rightarrow> nat \<Rightarrow> nat \<Rightarrow> uint64_t" where
  "HASH_PRIVATE_KECCAK_READLANE lanes x y = lanes ! HASH_PRIVATE_KECCAK_I x y"

definition hash_private_keccak_WRITELANE :: "uint64_t list \<Rightarrow> nat \<Rightarrow> nat \<Rightarrow> uint64_t \<Rightarrow> uint64_t list" where
  "hash_private_keccak_WRITELANE lanes x y lane = lanes[HASH_PRIVATE_KECCAK_I x y := lane]"

definition hash_private_keccak_XORLANE :: "uint64_t list \<Rightarrow> nat \<Rightarrow> nat \<Rightarrow> uint64_t \<Rightarrow> uint64_t list" where
  "hash_private_keccak_XORLANE lanes x y lane =
     lanes[HASH_PRIVATE_KECCAK_I x y := lanes ! HASH_PRIVATE_KECCAK_I x y XOR lane]"

text \<open>\<^verbatim>\<open>hash_private_keccak_LFSR86540\<close>: the result and the new value of \<^verbatim>\<open>*LFSR\<close>.\<close>

definition hash_private_keccak_LFSR86540 :: "uint8_t \<Rightarrow> bool \<times> uint8_t" where
  "hash_private_keccak_LFSR86540 LFSR =
     (LFSR AND 0x01 \<noteq> 0,
      if LFSR AND 0x80 \<noteq> 0 then (push_bit 1 LFSR XOR 0x71) mod 256 else push_bit 1 LFSR mod 256)"

text \<open>The theta step: the column parities, then one column \<open>x\<close> at a time.\<close>

definition theta_parity :: "uint64_t list \<Rightarrow> nat \<Rightarrow> uint64_t" where
  "theta_parity lanes x =
     HASH_PRIVATE_KECCAK_READLANE lanes x 0 XOR HASH_PRIVATE_KECCAK_READLANE lanes x 1 XOR
     HASH_PRIVATE_KECCAK_READLANE lanes x 2 XOR HASH_PRIVATE_KECCAK_READLANE lanes x 3 XOR
     HASH_PRIVATE_KECCAK_READLANE lanes x 4"

definition theta_column :: "uint64_t list \<Rightarrow> nat \<Rightarrow> uint64_t list \<Rightarrow> uint64_t list" where
  "theta_column C x lanes =
     (let D = C ! ((x + 4) mod 5) XOR HASH_PRIVATE_KECCAK_ROL64 (C ! ((x + 1) mod 5)) 1
      in fold (\<lambda>y l. hash_private_keccak_XORLANE l x y D) [0..<5] lanes)"

definition keccak_theta :: "uint64_t list \<Rightarrow> uint64_t list" where
  "keccak_theta lanes = fold (theta_column (map (theta_parity lanes) [0..<5])) [0..<5] lanes"

text \<open>One iteration of the rho and pi loop on \<open>(x, y, current, lanes)\<close>.\<close>

fun rho_pi_step :: "nat \<Rightarrow> nat \<times> nat \<times> uint64_t \<times> uint64_t list \<Rightarrow> nat \<times> nat \<times> uint64_t \<times> uint64_t list" where
  "rho_pi_step t' (x, y, current, lanes) =
     (let r = ((t' + 1) * (t' + 2) div 2) mod 64;
          Y = (2 * x + 3 * y) mod 5;
          x = y;
          y = Y;
          temp = HASH_PRIVATE_KECCAK_READLANE lanes x y;
          lanes = hash_private_keccak_WRITELANE lanes x y (HASH_PRIVATE_KECCAK_ROL64 current r)
      in (x, y, temp, lanes))"

definition keccak_rho_pi :: "uint64_t list \<Rightarrow> uint64_t list" where
  "keccak_rho_pi lanes =
     snd (snd (snd (fold rho_pi_step [0..<24] (1, 0, HASH_PRIVATE_KECCAK_READLANE lanes 1 0, lanes))))"

text \<open>The chi step on the plane \<open>y\<close>.\<close>

definition chi_plane :: "nat \<Rightarrow> uint64_t list \<Rightarrow> uint64_t list" where
  "chi_plane y lanes =
     (let temp = map (\<lambda>x. HASH_PRIVATE_KECCAK_READLANE lanes x y) [0..<5]
      in fold (\<lambda>x l. hash_private_keccak_WRITELANE l x y
                 (temp ! x XOR (NOT (temp ! ((x + 1) mod 5)) AND temp ! ((x + 2) mod 5)))) [0..<5] lanes)"

definition keccak_chi :: "uint64_t list \<Rightarrow> uint64_t list" where
  "keccak_chi lanes = fold chi_plane [0..<5] lanes"

text \<open>One iteration of the iota loop on \<open>(LFSRstate, lanes)\<close>.\<close>

fun iota_step :: "nat \<Rightarrow> uint8_t \<times> uint64_t list \<Rightarrow> uint8_t \<times> uint64_t list" where
  "iota_step j (LFSRstate, lanes) =
     (let bitPosition = 2 ^ j - 1;
          (r, LFSRstate) = hash_private_keccak_LFSR86540 LFSRstate
      in (LFSRstate, if r then hash_private_keccak_XORLANE lanes 0 0 (push_bit bitPosition 1) else lanes))"

fun keccak_round :: "nat \<Rightarrow> uint8_t \<times> uint64_t list \<Rightarrow> uint8_t \<times> uint64_t list" where
  "keccak_round round (LFSRstate, lanes) =
     fold iota_step [0..<7] (LFSRstate, keccak_chi (keccak_rho_pi (keccak_theta lanes)))"

definition lanes_of :: "uint8_t list \<Rightarrow> uint64_t list" where
  "lanes_of st = map (\<lambda>i. value_of (take 8 (drop (8 * i) st))) [0..<25]"

definition bytes_of_lanes :: "uint64_t list \<Rightarrow> uint8_t list" where
  "bytes_of_lanes lanes = concat (map (\<lambda>i. bytes_of 8 (lanes ! i)) [0..<25])"

definition KeccakF1600 :: "uint8_t list \<Rightarrow> uint8_t list" where
  "KeccakF1600 st = bytes_of_lanes (snd (fold keccak_round [0..<24] (0x01, lanes_of st)))"

definition hash_private_keccak_KeccakF1600_StatePermute :: "sponge \<Rightarrow> sponge" where
  "hash_private_keccak_KeccakF1600_StatePermute sp =
     sp\<lparr>bytes := KeccakF1600 (bytes sp), permutations := permutations sp + 1\<rparr>"

text \<open>\<^verbatim>\<open>for (i = 0; i < blockSize; i++) state[i] ^= input[i]\<close> with \<open>blockSize = length block\<close>.\<close>

definition xor_block :: "uint8_t list \<Rightarrow> uint8_t list \<Rightarrow> uint8_t list" where
  "xor_block st block = map2 (XOR) (take (length block) st) block @ drop (length block) st"

text \<open>
  The body of the absorbing loop: the state and \<open>blockSize\<close> after one iteration on the
  input that is left.
\<close>

definition absorb_block :: "nat \<Rightarrow> sponge \<Rightarrow> uint8_t list \<Rightarrow> sponge \<times> nat" where
  "absorb_block rateInBytes sp input =
     (let blockSize = min (length input) rateInBytes;
          sp1 = sp\<lparr>bytes := xor_block (bytes sp) (take blockSize input)\<rparr>
      in if blockSize = rateInBytes
         then (hash_private_keccak_KeccakF1600_StatePermute sp1, 0)
         else (sp1, blockSize))"

text \<open>
  The absorbing loop, on \<open>(state, blockSize)\<close> and the input that is left. The loops of
  \<^verbatim>\<open>hash_private_keccak_Keccak\<close> advance by \<open>min len rateInBytes\<close>; they are entered with
  \<open>rateInBytes > 0\<close> only (see \<open>hash_private_keccak_Keccak\<close> below).
\<close>

function keccak_absorb :: "nat \<Rightarrow> sponge \<times> nat \<Rightarrow> uint8_t list \<Rightarrow> sponge \<times> nat" where
  "keccak_absorb rateInBytes sb input =
     (if 0 < length input \<and> 0 < rateInBytes
      then keccak_absorb rateInBytes (absorb_block rateInBytes (fst sb) input)
             (drop (min (length input) rateInBytes) input)
      else sb)"
  by pat_completeness auto
termination
  by (relation "measure (\<lambda>(r, sb, input). length input)") auto

text \<open>The padding between the two loops.\<close>

definition keccak_pad :: "nat \<Rightarrow> uint8_t \<Rightarrow> sponge \<times> nat \<Rightarrow> sponge" where
  "keccak_pad rateInBytes delimitedSuffix sb =
     (case sb of (sp, blockSize) \<Rightarrow>
       (let sp1 = sp\<lparr>bytes := (bytes sp)[blockSize := bytes sp ! blockSize XOR delimitedSuffix]\<rparr>;
            sp2 = (if delimitedSuffix AND 0x80 \<noteq> 0 \<and> blockSize = rateInBytes - 1
                   then hash_private_keccak_KeccakF1600_StatePermute sp1 else sp1)
        in sp2\<lparr>bytes := (bytes sp2)[rateInBytes - 1 := bytes sp2 ! (rateInBytes - 1) XOR 0x80]\<rparr>))"

text \<open>The squeezing loop, on the state, the output written so far and \<open>outputByteLen\<close>.\<close>

function keccak_squeeze :: "nat \<Rightarrow> sponge \<Rightarrow> uint8_t list \<Rightarrow> nat \<Rightarrow> uint8_t list" where
  "keccak_squeeze rateInBytes sp output outputByteLen =
     (if 0 < outputByteLen \<and> 0 < rateInBytes
      then (let blockSize = min outputByteLen rateInBytes;
                output' = output @ take blockSize (bytes sp);
                outputByteLen' = outputByteLen - blockSize
            in keccak_squeeze rateInBytes
                 (if 0 < outputByteLen' then hash_private_keccak_KeccakF1600_StatePermute sp else sp)
                 output' outputByteLen')
      else output)"
  by pat_completeness auto
termination
  by (relation "measure (\<lambda>(r, sp, out, n). n)") auto

text \<open>
  \<^verbatim>\<open>hash_private_keccak_Keccak\<close>. It returns without writing any output when the
  parameters are refused. With \<open>rate = 0\<close> (and \<open>capacity = 1600\<close>) it passes that test,
  writes to \<^verbatim>\<open>state[rateInBytes - 1]\<close> outside the array and its loops do not advance:
  the model has no result there either.
\<close>

datatype keccak_failure = Parameters_refused | Rate_zero | Scratch_buffer_overflow

definition hash_private_keccak_Keccak :: "nat \<Rightarrow> nat \<Rightarrow> uint8_t list \<Rightarrow> uint8_t \<Rightarrow> nat \<Rightarrow> keccak_failure + uint8_t list" where
  "hash_private_keccak_Keccak rate capacity input delimitedSuffix outputByteLen =
     (let rateInBytes = rate div 8
      in if rate + capacity \<noteq> 1600 \<or> rate mod 8 \<noteq> 0 then Inl Parameters_refused
         else if rateInBytes = 0 then Inl Rate_zero
         else (let sp = \<lparr>bytes = replicate 200 0, permutations = 0\<rparr>;
                   sb = keccak_absorb rateInBytes (sp, 0) input;
                   sp = keccak_pad rateInBytes delimitedSuffix sb;
                   sp = hash_private_keccak_KeccakF1600_StatePermute sp
               in Inr (keccak_squeeze rateInBytes sp [] outputByteLen)))"

definition hash_util_char_array_to_hex_string :: "uint8_t list \<Rightarrow> string" where
  "hash_util_char_array_to_hex_string data =
     concat (map (\<lambda>byte. [hex_chars ! nat (drop_bit 4 (byte AND 0xF0)), hex_chars ! nat (byte AND 0x0F)]) data)"

text \<open>
  \<^verbatim>\<open>hash_shake128_binary\<close> and \<^verbatim>\<open>hash_shake256_binary\<close>. \<open>buffer_given\<close> tells whether the
  caller passes a buffer (of \<open>outsizeBytes + 1\<close> bytes, as the parameter's comment asks)
  or \<^verbatim>\<open>NULL\<close>. The squeezed bytes go to the static \<^verbatim>\<open>intBuff\<close> of
  \<^verbatim>\<open>HASH_SHAKE_128_MALLOC_LIMIT / 2 = 32\<close> bytes unless the function has allocated; a write
  beyond it is a failure of the model.
\<close>

definition HASH_SHAKE_128_MALLOC_LIMIT :: nat where
  "HASH_SHAKE_128_MALLOC_LIMIT = 64"

definition HASH_SHAKE_256_MALLOC_LIMIT :: nat where
  "HASH_SHAKE_256_MALLOC_LIMIT = 64"

definition hash_shake128_binary :: "string \<Rightarrow> nat \<Rightarrow> bool \<Rightarrow> keccak_failure + string" where
  "hash_shake128_binary data outsizeBytes buffer_given =
     (let allocated = (\<not> buffer_given \<and> outsizeBytes > HASH_SHAKE_128_MALLOC_LIMIT)
      in if \<not> allocated \<and> outsizeBytes div 2 > HASH_SHAKE_128_MALLOC_LIMIT div 2 then Inl Scratch_buffer_overflow
         else (case hash_private_keccak_Keccak 1344 256 (map of_char data) 0x1F (outsizeBytes div 2) of
                 Inl e \<Rightarrow> Inl e
               | Inr buff \<Rightarrow> Inr (hash_util_char_array_to_hex_string buff)))"

definition hash_shake256_binary :: "string \<Rightarrow> nat \<Rightarrow> bool \<Rightarrow> keccak_failure + string" where
  "hash_shake256_binary data outsizeBytes buffer_given =
     (let allocated = (\<not> buffer_given \<and> outsizeBytes > HASH_SHAKE_256_MALLOC_LIMIT)
      in if \<not> allocated \<and> outsizeBytes div 2 > HASH_SHAKE_256_MALLOC_LIMIT div 2 then Inl Scratch_buffer_overflow
         else (case hash_private_keccak_Keccak 1088 512 (map of_char data) 0x1F (outsizeBytes div 2) of
                 Inl e \<Rightarrow> Inl e
               | Inr buff \<Rightarrow> Inr (hash_util_char_array_to_hex_string buff)))"

definition hash_sha3_256_binary :: "string \<Rightarrow> keccak_failure + string" where
  "hash_sha3_256_binary data =
     (case hash_private_keccak_Keccak 1088 512 (map of_char data) 0x06 32 of
        Inl e \<Rightarrow> Inl e
      | Inr buff \<Rightarrow> Inr (hash_util_char_array_to_hex_string buff))"

section \<open>Definitions for the proofs\<close>

text \<open>
  The blocks of a padded message, the padding that \<open>finalize\<close> produces written as a
  function of the message, and the chaining value obtained by folding the block function
  over the blocks. \<open>pending\<close>, \<open>engine_inv\<close>, \<open>is_transform\<close> and \<open>update_step\<close> name the
  bytes waiting in the buffer, the invariant of an engine between two calls, what a
  block transform does to the state, and the body of the loop of \<open>update_binary\<close>.
\<close>

function chunks :: "nat \<Rightarrow> 'a list \<Rightarrow> 'a list list" where
  "chunks B xs = (if B = 0 \<or> length xs < B then [] else take B xs # chunks B (drop B xs))"
  by pat_completeness auto
termination
  by (relation "measure (\<lambda>(B, xs). length xs)") auto

declare chunks.simps [simp del]

definition md_pad :: "nat \<Rightarrow> nat \<Rightarrow> string \<Rightarrow> uint8_t list" where
  "md_pad B T msg =
     (let n = length msg mod B;
          z = (if n < T then B - 9 - n else 2 * B - 9 - n)
      in map of_char msg @ [0x80] @ replicate z 0 @ rev (bytes_of 8 ((int (length msg) * 8) mod 2 ^ 64)))"

definition md_hash :: "nat \<Rightarrow> nat \<Rightarrow> (int list \<Rightarrow> uint8_t list \<Rightarrow> int list) \<Rightarrow> int list \<Rightarrow> string \<Rightarrow> int list" where
  "md_hash B T f iv msg = foldl f iv (chunks B (md_pad B T msg))"

definition pending :: "Hash_Private \<Rightarrow> uint8_t list" where
  "pending s = take (bufferSize s) (buffer s)"

definition engine_inv :: "nat \<Rightarrow> Hash_Private \<Rightarrow> bool" where
  "engine_inv B s \<longleftrightarrow> length (buffer s) = B \<and> bufferSize s < B \<and> 0 \<le> bitlen s \<and> bitlen s < 2 ^ 64"

definition is_transform :: "(Hash_Private \<Rightarrow> Hash_Private) \<Rightarrow> (int list \<Rightarrow> uint8_t list \<Rightarrow> int list) \<Rightarrow> bool" where
  "is_transform tr f \<longleftrightarrow> (\<forall>s. tr s = s\<lparr>h := f (h s) (buffer s), transforms := transforms s + 1\<rparr>)"

definition update_step :: "nat \<Rightarrow> int \<Rightarrow> (Hash_Private \<Rightarrow> Hash_Private) \<Rightarrow> Hash_Private \<Rightarrow> char \<Rightarrow> Hash_Private" where
  "update_step B bits tr s d =
     (let s1 = s\<lparr>buffer := (buffer s)[bufferSize s := of_char d], bufferSize := (bufferSize s + 1) mod 256\<rparr>
      in if bufferSize s1 = B
         then (let s' = tr s1 in s'\<lparr>bufferSize := 0, bitlen := (bitlen s' + bits) mod 2 ^ 64\<rparr>)
         else s1)"

definition sha256_iv :: "int list" where
  "sha256_iv = [0x6a09e667, 0xbb67ae85, 0x3c6ef372, 0xa54ff53a, 0x510e527f, 0x9b05688c, 0x1f83d9ab, 0x5be0cd19]"

text \<open>
  The state of \<^verbatim>\<open>hash_private_keccak_Keccak\<close> when its squeezing loop starts: after the
  absorbing loop, the padding and the permutation that switches to the squeezing phase.
\<close>

definition keccak_squeezing_state :: "nat \<Rightarrow> uint8_t \<Rightarrow> uint8_t list \<Rightarrow> sponge" where
  "keccak_squeezing_state rateInBytes delimitedSuffix input =
     hash_private_keccak_KeccakF1600_StatePermute
       (keccak_pad rateInBytes delimitedSuffix
         (keccak_absorb rateInBytes (\<lparr>bytes = replicate 200 0, permutations = 0\<rparr>, 0) input))"

text \<open>
  The number of bytes waiting in the buffer of an MD5 engine, as
  \<^verbatim>\<open>hash_private_md5_update_binary\<close> and \<^verbatim>\<open>hash_md5_finalize\<close> compute it.
\<close>

definition md5_index :: "Hash_Private_MD5 \<Rightarrow> int" where
  "md5_index m = count m ! 0 div 8 mod 64"

declare keccak_absorb.simps [simp del]
declare keccak_squeeze.simps [simp del]
declare sprintf_x.simps [simp del]
declare sprintf_u.simps [simp del]

section \<open>SHA-512/224 as FIPS 180-4 defines it\<close>

text \<open>
  The reference for the SHA-512/t engine: SHA-512/224 written from the text of
  FIPS 180-4, on 64-bit words as integers in \<open>[0, 2 ^ 64)\<close>. Nothing below is taken from
  \<^verbatim>\<open>Hash.h\<close> except the table \<open>sha512_k\<close> of the eighty constants of section 4.2.3 and
  the rendering of a word as sixteen hexadecimal digits.
\<close>























section \<open>The streaming engines compute the padded-message hash\<close>

lemma chunks_short: "length xs < B \<Longrightarrow> chunks B xs = []"
  by (subst chunks.simps) simp

lemma chunks_block: "length xs = B \<Longrightarrow> 0 < B \<Longrightarrow> chunks B (xs @ ys) = xs # chunks B ys"
  by (subst chunks.simps) simp

lemma update_binary_Cons: "update_binary B bits tr s (d # ds) = update_binary B bits tr (update_step B bits tr s d) ds"
  by (simp add: update_step_def Let_def)

lemma update_binary_append:
  "update_binary B bits tr s (xs @ ys) = update_binary B bits tr (update_binary B bits tr s xs) ys"
  by (induction xs arbitrary: s) (simp_all add: Let_def)

lemma update_step_short:
  assumes "engine_inv B s" "bufferSize s + 1 < B" "B < 256"
  shows "engine_inv B (update_step B bits tr s d)"
    and "pending (update_step B bits tr s d) = pending s @ [of_char d]"
    and "bufferSize (update_step B bits tr s d) = bufferSize s + 1"
    and "h (update_step B bits tr s d) = h s"
    and "bitlen (update_step B bits tr s d) = bitlen s"
    and "transforms (update_step B bits tr s d) = transforms s"
    and "t (update_step B bits tr s d) = t s"
  using assms
  by (simp_all add: engine_inv_def update_step_def pending_def Let_def take_Suc_conv_app_nth)

lemma update_step_full:
  assumes "is_transform tr f" "engine_inv B s" "bufferSize s + 1 = B" "B < 256"
  shows "engine_inv B (update_step B bits tr s d)"
    and "bufferSize (update_step B bits tr s d) = 0"
    and "h (update_step B bits tr s d) = f (h s) (pending s @ [of_char d])"
    and "bitlen (update_step B bits tr s d) = (bitlen s + bits) mod 2 ^ 64"
    and "transforms (update_step B bits tr s d) = transforms s + 1"
    and "t (update_step B bits tr s d) = t s"
proof -
  have len: "length (buffer s) = B" and bs: "bufferSize s < B"
    using assms(2) by (simp_all add: engine_inv_def)
  have full: "(buffer s)[bufferSize s := of_char d] = pending s @ [of_char d]"
  proof -
    have "(buffer s)[bufferSize s := of_char d] = take (Suc (bufferSize s)) ((buffer s)[bufferSize s := of_char d])"
      using len assms(3) by simp
    also have "\<dots> = pending s @ [of_char d]"
      using bs len by (simp add: take_Suc_conv_app_nth pending_def)
    finally show ?thesis .
  qed
  have m: "(bufferSize s + 1) mod 256 = B"
    using assms(3,4) by simp
  have trs: "\<And>s. tr s = s\<lparr>h := f (h s) (buffer s), transforms := transforms s + 1\<rparr>"
    using assms(1) by (simp add: is_transform_def)
  show "engine_inv B (update_step B bits tr s d)"
    using len bs assms(3,4) m by (simp add: engine_inv_def update_step_def Let_def trs)
  show "bufferSize (update_step B bits tr s d) = 0"
    using m by (simp add: update_step_def Let_def trs)
  show "h (update_step B bits tr s d) = f (h s) (pending s @ [of_char d])"
    using m full by (simp add: update_step_def Let_def trs)
  show "bitlen (update_step B bits tr s d) = (bitlen s + bits) mod 2 ^ 64"
    using m by (simp add: update_step_def Let_def trs)
  show "transforms (update_step B bits tr s d) = transforms s + 1"
    using m by (simp add: update_step_def Let_def trs)
  show "t (update_step B bits tr s d) = t s"
    using m by (simp add: update_step_def Let_def trs)
qed

lemma update_binary_sem:
  assumes tr: "is_transform tr f" and B: "0 < B" "B < 256"
  shows "engine_inv B s \<Longrightarrow>
    engine_inv B (update_binary B bits tr s ds) \<and>
    pending (update_binary B bits tr s ds) = drop (length (pending s @ map of_char ds) div B * B) (pending s @ map of_char ds) \<and>
    h (update_binary B bits tr s ds) = foldl f (h s) (chunks B (pending s @ map of_char ds)) \<and>
    bitlen (update_binary B bits tr s ds) = (bitlen s + bits * int (length (pending s @ map of_char ds) div B)) mod 2 ^ 64 \<and>
    transforms (update_binary B bits tr s ds) = transforms s + length (pending s @ map of_char ds) div B \<and>
    t (update_binary B bits tr s ds) = t s"
proof (induction ds arbitrary: s)
  case Nil
  then have "length (pending s) < B"
    by (simp add: engine_inv_def pending_def)
  with Nil show ?case
    by (simp add: chunks_short engine_inv_def)
next
  case (Cons d ds)
  let ?s = "update_step B bits tr s d"
  have lp: "length (pending s) = bufferSize s" and bs: "bufferSize s < B"
    using Cons.prems by (simp_all add: engine_inv_def pending_def)
  show ?case
  proof (cases "bufferSize s + 1 < B")
    case True
    note st = update_step_short [OF Cons.prems True B(2), of bits tr d]
    have eq: "pending ?s @ map of_char ds = pending s @ map of_char (d # ds)"
      by (simp add: st(2))
    show ?thesis
      using Cons.IH [OF st(1)] unfolding update_binary_Cons eq
      by (simp add: st)
  next
    case False
    then have full: "bufferSize s + 1 = B" using bs by simp
    note st = update_step_full [OF tr Cons.prems full B(2), of bits d]
    have p0: "pending ?s = []"
      by (simp add: pending_def st(2))
    define blk where "blk = pending s @ [of_char d]"
    have lblk: "length blk = B"
      using full lp by (simp add: blk_def)
    have all: "pending s @ map of_char (d # ds) = blk @ map of_char ds"
      by (simp add: blk_def)
    have k: "length (blk @ map of_char ds) div B = Suc (length ds div B)"
      using lblk B(1) by (simp add: div_add_self1)
    have dr: "drop (Suc (length ds div B) * B) (blk @ map of_char ds) = drop (length ds div B * B) (map of_char ds)"
      using lblk by simp
    have bl: "((bitlen s + bits) mod 2 ^ 64 + bits * int (length ds div B)) mod 2 ^ 64
        = (bitlen s + bits * (1 + int (length ds div B))) mod 2 ^ 64"
    proof -
      have "((bitlen s + bits) mod 2 ^ 64 + bits * int (length ds div B)) mod 2 ^ 64
          = ((bitlen s + bits) + bits * int (length ds div B)) mod 2 ^ 64"
        by (rule mod_add_left_eq)
      also have "(bitlen s + bits) + bits * int (length ds div B) = bitlen s + bits * (1 + int (length ds div B))"
        by (simp add: algebra_simps)
      finally show ?thesis .
    qed
    show ?thesis
      using Cons.IH [OF st(1)] bl unfolding update_binary_Cons all k dr
      by (simp add: p0 st chunks_block [OF lblk B(1)] blk_def [symmetric])
  qed
qed


lemma chunks_split:
  "0 < B \<Longrightarrow> chunks B (xs @ ys) = chunks B xs @ chunks B (drop (length xs div B * B) xs @ ys)"
proof (induction B xs rule: chunks.induct)
  case (1 B xs)
  show ?case
  proof (cases "length xs < B")
    case True
    then show ?thesis by (simp add: chunks_short)
  next
    case False
    then have ge: "B \<le> length xs" by simp
    have d: "length xs div B * B = B + (length xs - B) div B * B"
      using ge "1.prems" by (metis add.commute div_mult_self1_is_m le_add_diff_inverse le_div_geq mult_Suc mult.commute)
    have "chunks B (xs @ ys) = take B xs # chunks B (drop B xs @ ys)"
      using ge "1.prems" by (subst chunks.simps) simp
    also have "chunks B (drop B xs @ ys) =
        chunks B (drop B xs) @ chunks B (drop (length (drop B xs) div B * B) (drop B xs) @ ys)"
      using "1.IH" False "1.prems" by simp
    also have "drop (length (drop B xs) div B * B) (drop B xs) = drop (length xs div B * B) xs"
      by (simp add: d add.commute)
    finally show ?thesis
      using ge "1.prems" by (subst (2) chunks.simps) simp
  qed
qed

lemma bytes_of_Suc: "bytes_of (Suc n) u = u mod 256 # bytes_of n (u div 256)"
proof -
  have "[0..<Suc n] = 0 # map Suc [0..<n]"
    by (simp add: upt_conv_Cons map_Suc_upt del: upt_Suc)
  then show ?thesis
    by (simp add: bytes_of_def zdiv_zmult2_eq del: upt_Suc)
qed

lemma length_bytes_of [simp]: "length (bytes_of n u) = n"
  by (simp add: bytes_of_def)

lemma bytes_of_value_of:
  "\<forall>b\<in>set bs. 0 \<le> b \<and> b < 256 \<Longrightarrow> bytes_of (length bs) (value_of bs) = bs"
proof (induction bs)
  case Nil
  then show ?case by (simp add: bytes_of_def)
next
  case (Cons b bs)
  then have "bytes_of (length bs) (value_of bs) = bs" by simp
  moreover have "value_of (b # bs) mod 256 = b" "value_of (b # bs) div 256 = value_of bs"
    using Cons.prems by (simp_all add: value_of_def)
  ultimately show ?case by (simp add: bytes_of_Suc)
qed

lemma bytes_of_range: "b \<in> set (bytes_of n u) \<Longrightarrow> 0 \<le> b \<and> b < 256"
  by (auto simp: bytes_of_def)

lemma bytes_of_swap_endian: "bytes_of n (hash_util_swap_endian n u) = rev (bytes_of n u)"
  using bytes_of_value_of [of "rev (bytes_of n u)"] bytes_of_range [of _ n u]
  by (simp add: hash_util_swap_endian_def)

lemma finalize_sem:
  assumes tr: "is_transform tr f" and B: "8 < B" and T: "T \<le> B - 8" and inv: "engine_inv B s"
  shows "h (finalize B T tr s) =
      foldl f (h s)
        (chunks B (pending s @ [0x80] @
           replicate (if bufferSize s < T then B - 9 - bufferSize s else 2 * B - 9 - bufferSize s) 0 @
           rev (bytes_of 8 ((bitlen s + int (bufferSize s) * 8) mod 2 ^ 64))))"
    and "transforms (finalize B T tr s) = transforms s + (if bufferSize s < T then 1 else 2)"
proof -
  define n where "n = bufferSize s"
  let ?lenb = "rev (bytes_of 8 ((bitlen s + int n * 8) mod 2 ^ 64))"
  have len: "length (buffer s) = B" and nB: "n < B"
    using inv by (simp_all add: engine_inv_def n_def)
  have llen: "length ?lenb = 8" by simp
  have trs: "\<And>s. tr s = s\<lparr>h := f (h s) (buffer s), transforms := transforms s + 1\<rparr>"
    using tr by (simp add: is_transform_def)
  have p: "take (Suc n) ((buffer s)[n := 0x80]) = pending s @ [0x80]"
    using nB len by (simp add: take_Suc_conv_app_nth pending_def n_def)
  have lp: "length (pending s) = n"
    using nB len by (simp add: pending_def n_def)
  show "h (finalize B T tr s) =
      foldl f (h s)
        (chunks B (pending s @ [0x80] @
           replicate (if bufferSize s < T then B - 9 - bufferSize s else 2 * B - 9 - bufferSize s) 0 @
           rev (bytes_of 8 ((bitlen s + int (bufferSize s) * 8) mod 2 ^ 64))))"
  proof (cases "n < T")
    case True
    have blk: "length (pending s @ [0x80] @ replicate (B - 9 - n) 0 @ ?lenb) = B"
      using True T B lp llen by simp
    have "chunks B ((pending s @ [0x80] @ replicate (B - 9 - n) 0 @ ?lenb) @ []) =
        [pending s @ [0x80] @ replicate (B - 9 - n) 0 @ ?lenb]"
      using blk B by (subst chunks_block) (simp_all add: chunks_short)
    then show ?thesis
      using True T B len nB p lp llen
      by (simp add: finalize_def Let_def store_def trs n_def [symmetric]
          hash_util_is_little_endian_def bytes_of_swap_endian)
  next
    case False
    have z: "replicate (2 * B - 9 - n) (0::int) = replicate (B - Suc n) 0 @ replicate (B - 8) 0"
      using nB B by (simp add: replicate_add [symmetric])
    have b1: "length (pending s @ [0x80] @ replicate (B - Suc n) 0) = B"
      using nB lp by simp
    have b2: "length (replicate (B - 8) (0::int) @ ?lenb) = B"
      using B llen by simp
    have "chunks B ((replicate (B - 8) 0 @ ?lenb) @ []) = [replicate (B - 8) 0 @ ?lenb]"
      using B by (subst chunks_block [OF b2]) (simp_all add: chunks_short)
    then have "chunks B ((pending s @ [0x80] @ replicate (B - Suc n) 0) @ (replicate (B - 8) 0 @ ?lenb)) =
        [pending s @ [0x80] @ replicate (B - Suc n) 0, replicate (B - 8) 0 @ ?lenb]"
      using B by (subst chunks_block [OF b1]) simp_all
    then show ?thesis
      using False T B len nB p lp llen z
      by (simp add: finalize_def Let_def store_def trs n_def [symmetric]
          hash_util_is_little_endian_def bytes_of_swap_endian)
  qed
  show "transforms (finalize B T tr s) = transforms s + (if bufferSize s < T then 1 else 2)"
    by (simp add: finalize_def Let_def trs)
qed


lemma engine_inv_pending: "engine_inv B s \<Longrightarrow> length (pending s) = bufferSize s"
  by (simp add: engine_inv_def pending_def)

lemma md_engine_correct:
  assumes tr: "is_transform tr f" and B: "8 < B" "B < 256" and T: "T \<le> B - 8"
    and init: "length (buffer s) = B" "bufferSize s = 0" "bitlen s = 0"
  shows "h (finalize B T tr (update_binary B (8 * int B) tr s msg)) = md_hash B T f (h s) msg"
    and "transforms (finalize B T tr (update_binary B (8 * int B) tr s msg)) =
      transforms s + length msg div B + (if length msg mod B < T then 1 else 2)"
proof -
  let ?m = "map of_char msg :: int list"
  let ?k = "length msg div B"
  let ?n = "length msg mod B"
  let ?s = "update_binary B (8 * int B) tr s msg"
  let ?F = "f"
  have inv: "engine_inv B s"
    using init B by (simp add: engine_inv_def)
  have p0: "pending s = []"
    using init by (simp add: pending_def)
  have B0: "0 < B" using B by simp
  note u = update_binary_sem [OF tr B0 B(2) inv, of "8 * int B" msg, unfolded p0, simplified]
  have inv': "engine_inv B ?s" and pend: "pending ?s = drop (?k * B) ?m"
    and hs: "h ?s = foldl ?F (h s) (chunks B ?m)"
    and bl: "bitlen ?s = (8 * int B * int ?k) mod 2 ^ 64"
    and trc: "transforms ?s = transforms s + ?k"
    using u init by simp_all
  have n: "bufferSize ?s = ?n"
  proof -
    have "bufferSize ?s = length (pending ?s)"
      using engine_inv_pending [OF inv'] by simp
    also have "\<dots> = length msg - ?k * B"
      by (simp add: pend)
    also have "\<dots> = ?n"
      by (simp add: minus_div_mult_eq_mod)
    finally show ?thesis .
  qed
  have len: "(bitlen ?s + int ?n * 8) mod 2 ^ 64 = (int (length msg) * 8) mod 2 ^ 64"
  proof -
    have "(bitlen ?s + int ?n * 8) mod 2 ^ 64 = (8 * int B * int ?k + int ?n * 8) mod 2 ^ 64"
      unfolding bl by (rule mod_add_left_eq)
    also have "8 * int B * int ?k + int ?n * 8 = (int ?k * int B + int ?n) * 8"
      by (simp add: algebra_simps)
    also have "int ?k * int B + int ?n = int (length msg)"
      by (metis of_nat_add of_nat_mult div_mult_mod_eq)
    finally show ?thesis .
  qed
  note fin = finalize_sem [OF tr B(1) T inv', unfolded n len pend hs]
  have "md_hash B T f (h s) msg =
      foldl ?F (h s) (chunks B (?m @ ([0x80] @ replicate (if ?n < T then B - 9 - ?n else 2 * B - 9 - ?n) 0 @
        rev (bytes_of 8 ((int (length msg) * 8) mod 2 ^ 64)))))"
    by (simp add: md_hash_def md_pad_def Let_def)
  also have "\<dots> = foldl ?F (foldl ?F (h s) (chunks B ?m))
      (chunks B (drop (?k * B) ?m @ ([0x80] @ replicate (if ?n < T then B - 9 - ?n else 2 * B - 9 - ?n) 0 @
        rev (bytes_of 8 ((int (length msg) * 8) mod 2 ^ 64)))))"
    by (subst chunks_split [OF B0]) simp
  also have "\<dots> = h (finalize B T tr ?s)"
    by (simp add: fin(1))
  finally show "h (finalize B T tr ?s) = md_hash B T f (h s) msg"
    by simp
  show "transforms (finalize B T tr ?s) = transforms s + ?k + (if ?n < T then 1 else 2)"
    using fin(2) trc by simp
qed

lemma sha256_is_transform: "is_transform hash_private_sha256_transform sha256_block"
  by (simp add: is_transform_def hash_private_sha256_transform_def)

lemma hash_sha256_binary_eq:
  assumes "length (buffer s) = 64"
  shows "hash_sha256_binary s msg =
    concat (map (\<lambda>i. sprintf_0x 8 (md_hash 64 56 sha256_block sha256_iv msg ! i)) [0..<8])"
proof -
  have "h (finalize 64 56 hash_private_sha256_transform
      (update_binary 64 (8 * int 64) hash_private_sha256_transform (hash_sha256_init s) msg)) =
      md_hash 64 56 sha256_block (h (hash_sha256_init s)) msg"
    by (rule md_engine_correct(1) [OF sha256_is_transform]) (simp_all add: hash_sha256_init_def assms)
  then show ?thesis
    by (simp add: hash_sha256_binary_def hash_sha256_hexdigest_def hash_sha256_finalize_def
        hash_sha256_update_binary_def hash_sha256_init_def sha256_iv_def)
qed

section \<open>Claims\<close>

lemma sha256_abc_padded:
  "concat (map (\<lambda>i. sprintf_0x 8 (md_hash 64 56 sha256_block sha256_iv ''abc'' ! i)) [0..<8]) =
    ''ba7816bf8f01cfea414140de5dae2223b00361a396177a9cb410ff61f20015ad''"
  by code_simp

text \<open>
  Claim C1. For the three bytes \<open>abc\<close> the one-shot SHA-256 operation
  (\<^verbatim>\<open>hash_sha256_binary\<close>: init, update with the whole input, finalize, hexdigest) returns
  the 64 lower-case hexadecimal digits
  \<open>ba7816bf8f01cfea414140de5dae2223b00361a396177a9cb410ff61f20015ad\<close>, whatever the
  uninitialized local engine \<open>s\<close> holds in its 64-byte buffer and other fields.
\<close>

theorem sha256_abc:
  "length (buffer s) = 64 \<Longrightarrow>
   hash_sha256_binary s ''abc'' = ''ba7816bf8f01cfea414140de5dae2223b00361a396177a9cb410ff61f20015ad''"
  by (simp only: hash_sha256_binary_eq sha256_abc_padded)

theorem sha256_abc_witness:
  "length (buffer \<lparr>bitlen = 7, bufferSize = 9, h = [], buffer = replicate 64 0xAA, t = 0, transforms = 0\<rparr>) = 64 \<and>
   hash_sha256_binary \<lparr>bitlen = 7, bufferSize = 9, h = [], buffer = replicate 64 0xAA, t = 0, transforms = 0\<rparr> ''abc'' =
     ''ba7816bf8f01cfea414140de5dae2223b00361a396177a9cb410ff61f20015ad''"
  using sha256_abc [of "\<lparr>bitlen = 7, bufferSize = 9, h = [], buffer = replicate 64 0xAA, t = 0, transforms = 0\<rparr>"]
  by simp

subsection \<open>Reading the MD5 digest before finalization\<close>

text \<open>
  Claim C10. If \<^verbatim>\<open>hash_md5_hexdigest\<close> (in C++, \<^verbatim>\<open>MD5::hexdigest\<close>, whose body is the same)
  is called on an engine whose \<open>finalized\<close> flag is unset, it returns the empty string
  and leaves the engine as it was.
\<close>

theorem md5_hexdigest_before_finalize:
  "\<not> finalized m \<Longrightarrow> hash_md5_hexdigest m = ('''', m)"
  by (simp add: hash_md5_hexdigest_def)

theorem md5_hexdigest_before_finalize_witness:
  "\<not> finalized (hash_md5_init \<lparr>finalized = True, buffer_md5 = replicate 64 7, count = [1, 2],
       state = [], digest = [], transforms_md5 = 0\<rparr>) \<and>
   hash_md5_hexdigest (hash_md5_init \<lparr>finalized = True, buffer_md5 = replicate 64 7, count = [1, 2],
       state = [], digest = [], transforms_md5 = 0\<rparr>) =
     ('''', hash_md5_init \<lparr>finalized = True, buffer_md5 = replicate 64 7, count = [1, 2],
       state = [], digest = [], transforms_md5 = 0\<rparr>)"
  using md5_hexdigest_before_finalize [of "hash_md5_init \<lparr>finalized = True, buffer_md5 = replicate 64 7,
       count = [1, 2], state = [], digest = [], transforms_md5 = 0\<rparr>"]
  by (simp add: hash_md5_init_def)

subsection \<open>The parameter of SHA-512/t\<close>


subsection \<open>The length of the partial buffer\<close>

lemma update_binary_bufferSize:
  assumes "is_transform tr f" "B < 256"
  shows "bufferSize s < B \<Longrightarrow> bufferSize (update_binary B bits tr s ds) < B"
proof (induction ds arbitrary: s)
  case Nil
  then show ?case by simp
next
  case (Cons d ds)
  have trs: "\<And>s. tr s = s\<lparr>h := f (h s) (buffer s), transforms := transforms s + 1\<rparr>"
    using assms(1) by (simp add: is_transform_def)
  have "bufferSize (update_step B bits tr s d) < B"
    using Cons.prems assms(2) by (auto simp: update_step_def Let_def trs)
  then show ?case
    unfolding update_binary_Cons by (rule Cons.IH)
qed

lemma foldl_update_binary_bufferSize:
  assumes "is_transform tr f" "B < 256"
  shows "bufferSize s < B \<Longrightarrow> bufferSize (foldl (update_binary B bits tr) s cs) < B"
  by (induction cs arbitrary: s) (simp_all add: update_binary_bufferSize [OF assms])

lemma sha512_is_transform: "is_transform hash_private_sha512_transform sha512_block"
  by (simp add: is_transform_def hash_private_sha512_transform_def)

lemma sha1_is_transform: "is_transform hash_private_hash_sha1_transform sha1_block"
  by (simp add: is_transform_def hash_private_hash_sha1_transform_def)

lemma sha224_update_eq: "hash_sha224_update_binary = hash_sha256_update_binary"
  by (rule ext)+ (simp add: hash_sha224_update_binary_def)

lemma sha384_update_eq: "hash_sha384_update_binary = hash_sha512_update_binary"
  by (rule ext)+ (simp add: hash_sha384_update_binary_def)

lemma sha512t_update_eq: "hash_sha512t_update_binary = hash_sha512_update_binary"
  by (rule ext)+ (simp add: hash_sha512t_update_binary_def)

lemma sha256_chunks_bufferSize:
  "bufferSize s < 64 \<Longrightarrow> bufferSize (foldl hash_sha256_update_binary s cs) < 64"
  unfolding hash_sha256_update_binary_def
  by (rule foldl_update_binary_bufferSize [OF sha256_is_transform]) simp_all

lemma sha512_chunks_bufferSize:
  "bufferSize s < 128 \<Longrightarrow> bufferSize (foldl hash_sha512_update_binary s cs) < 128"
  unfolding hash_sha512_update_binary_def
  by (rule foldl_update_binary_bufferSize [OF sha512_is_transform]) simp_all

lemma sha1_chunks_bufferSize:
  "bufferSize s < 64 \<Longrightarrow> bufferSize (foldl hash_sha1_update_binary s cs) < 64"
  unfolding hash_sha1_update_binary_def
  by (rule foldl_update_binary_bufferSize [OF sha1_is_transform]) simp_all

lemma sha512t_derive_bufferSize: "bufferSize (sha512t_derive s t' str) = 0"
  by (simp add: sha512t_derive_def Let_def hash_sha512_reset_def)

text \<open>
  Claim C9. For every Merkle-Damgaard engine the length of the partial buffer is 0 after
  Init and strictly below the block size (64 bytes for MD5, SHA-1 and the SHA-256 family,
  128 bytes for the SHA-512 family) after any sequence of Update calls with chunks of any
  sizes, hence at the start of every Update call. For MD5 the length is the index
  \<open>count[0] / 8 % 64\<close> that Update computes, which is below 64 in every state.
\<close>

theorem partial_buffer_below_block_size:
  "bufferSize (hash_sha256_init s) = 0 \<and>
   bufferSize (foldl hash_sha256_update_binary (hash_sha256_init s) cs) < 64 \<and>
   bufferSize (hash_sha224_init s) = 0 \<and>
   bufferSize (foldl hash_sha224_update_binary (hash_sha224_init s) cs) < 64 \<and>
   bufferSize (hash_sha1_init s) = 0 \<and>
   bufferSize (foldl hash_sha1_update_binary (hash_sha1_init s) cs) < 64 \<and>
   bufferSize (hash_sha512_init s) = 0 \<and>
   bufferSize (foldl hash_sha512_update_binary (hash_sha512_init s) cs) < 128 \<and>
   bufferSize (hash_sha384_init s) = 0 \<and>
   bufferSize (foldl hash_sha384_update_binary (hash_sha384_init s) cs) < 128 \<and>
   (case hash_sha512t_init s t' of
      Inl e \<Rightarrow> t' = 384 \<or> t' < 4 \<or> 2048 < t'
    | Inr s1 \<Rightarrow> bufferSize s1 = 0 \<and> bufferSize (foldl hash_sha512t_update_binary s1 cs) < 128) \<and>
   md5_index (hash_md5_init m) = 0 \<and> 0 \<le> md5_index m' \<and> md5_index m' < 64"
proof -
  have t: "case hash_sha512t_init s t' of
      Inl e \<Rightarrow> t' = 384 \<or> t' < 4 \<or> 2048 < t'
    | Inr s1 \<Rightarrow> bufferSize s1 = 0 \<and> bufferSize (foldl hash_sha512t_update_binary s1 cs) < 128"
    by (auto simp: hash_sha512t_init_def sha512t_update_eq sha512t_derive_bufferSize
        intro!: sha512_chunks_bufferSize)
  have "bufferSize (foldl hash_sha256_update_binary (hash_sha256_init s) cs) < 64"
    "bufferSize (foldl hash_sha256_update_binary (hash_sha224_init s) cs) < 64"
    "bufferSize (foldl hash_sha1_update_binary (hash_sha1_init s) cs) < 64"
    "bufferSize (foldl hash_sha512_update_binary (hash_sha512_init s) cs) < 128"
    "bufferSize (foldl hash_sha512_update_binary (hash_sha384_init s) cs) < 128"
    by (simp_all add: sha256_chunks_bufferSize sha512_chunks_bufferSize sha1_chunks_bufferSize
        hash_sha256_init_def hash_sha224_init_def hash_sha1_init_def hash_sha512_init_def
        hash_sha384_init_def)
  then show ?thesis
    using t
    by (simp add: sha224_update_eq sha384_update_eq hash_sha256_init_def hash_sha224_init_def
        hash_sha1_init_def hash_sha512_init_def hash_sha384_init_def md5_index_def hash_md5_init_def)
qed

subsection \<open>The block transforms of Finalize\<close>









subsection \<open>Hashing a file that cannot be opened\<close>

lemma sha256_empty_padded:
  "concat (map (\<lambda>i. sprintf_0x 8 (md_hash 64 56 sha256_block sha256_iv '''' ! i)) [0..<8]) =
    ''e3b0c44298fc1c149afbf4c8996fb92427ae41e4649b934ca495991b7852b855''"
  by code_simp

lemma Hash_sha256_eq: "Hash_sha256 s str = hash_sha256_binary s str"
  by (simp add: Hash_sha256_def hash_sha256_binary_def)

text \<open>
  Claim C3, at a path that cannot be opened. The C functions \<^verbatim>\<open>hash_sha256_file\<close> and
  \<^verbatim>\<open>hash_sha256_file_easy\<close> return the empty string, which is no digest. The C++ function
  \<^verbatim>\<open>Hash::File::sha256\<close> hashes the empty string that \<^verbatim>\<open>Util::LoadFile\<close> returns for such a
  path, and returns the SHA-256 digest of the empty input.
\<close>

theorem file_sha256_of_unopenable_path:
  assumes "fs path = None" and "length (buffer s) = 64"
  shows "hash_sha256_file fs s path = '''' \<and>
         hash_sha256_file_easy fs s path = '''' \<and>
         Hash_File_sha256 fs s path = Hash_sha256 s '''' \<and>
         Hash_File_sha256 fs s path = ''e3b0c44298fc1c149afbf4c8996fb92427ae41e4649b934ca495991b7852b855''"
proof -
  have "Hash_File_sha256 fs s path = hash_sha256_binary s ''''"
    using assms(1) by (simp add: Hash_File_sha256_def Hash_Util_LoadFile_def Hash_sha256_eq)
  then have "Hash_File_sha256 fs s path = ''e3b0c44298fc1c149afbf4c8996fb92427ae41e4649b934ca495991b7852b855''"
    by (simp only: hash_sha256_binary_eq [OF assms(2)] sha256_empty_padded)
  then show ?thesis
    using assms(1)
    by (simp add: hash_sha256_file_def hash_sha256_file_easy_def hash_util_hash_file_def
        hash_util_load_file_def Hash_File_sha256_def Hash_Util_LoadFile_def)
qed

theorem file_sha256_of_unopenable_path_witness:
  "hash_sha256_file (\<lambda>p. None)
     \<lparr>bitlen = 0, bufferSize = 0, h = [], buffer = replicate 64 0, t = 0, transforms = 0\<rparr> ''missing.bin'' = '''' \<and>
   hash_sha256_file_easy (\<lambda>p. None)
     \<lparr>bitlen = 0, bufferSize = 0, h = [], buffer = replicate 64 0, t = 0, transforms = 0\<rparr> ''missing.bin'' = '''' \<and>
   Hash_File_sha256 (\<lambda>p. None)
     \<lparr>bitlen = 0, bufferSize = 0, h = [], buffer = replicate 64 0, t = 0, transforms = 0\<rparr> ''missing.bin'' =
     Hash_sha256 \<lparr>bitlen = 0, bufferSize = 0, h = [], buffer = replicate 64 0, t = 0, transforms = 0\<rparr> '''' \<and>
   Hash_File_sha256 (\<lambda>p. None)
     \<lparr>bitlen = 0, bufferSize = 0, h = [], buffer = replicate 64 0, t = 0, transforms = 0\<rparr> ''missing.bin'' =
     ''e3b0c44298fc1c149afbf4c8996fb92427ae41e4649b934ca495991b7852b855''"
  by (rule file_sha256_of_unopenable_path [of "\<lambda>p. None" "''missing.bin''"
      "\<lparr>bitlen = 0, bufferSize = 0, h = [], buffer = replicate 64 0, t = 0, transforms = 0\<rparr>"])
    simp_all

subsection \<open>Feeding an engine in chunks\<close>

text \<open>
  The engines of the SHA family take their input one byte at a time, so a list of Update
  calls leaves the engine in the state of one Update call with the concatenation.
\<close>

lemma update_binary_chunks:
  "foldl (update_binary B bits tr) s cs = update_binary B bits tr s (concat cs)"
  by (induction cs arbitrary: s) (simp_all add: update_binary_append)

lemma sha_update_chunks:
  "foldl hash_sha256_update_binary s cs = hash_sha256_update_binary s (concat cs)"
  "foldl hash_sha224_update_binary s cs = hash_sha224_update_binary s (concat cs)"
  "foldl hash_sha1_update_binary s cs = hash_sha1_update_binary s (concat cs)"
  "foldl hash_sha512_update_binary s cs = hash_sha512_update_binary s (concat cs)"
  "foldl hash_sha384_update_binary s cs = hash_sha384_update_binary s (concat cs)"
  "foldl hash_sha512t_update_binary s cs = hash_sha512t_update_binary s (concat cs)"
  by (simp_all add: sha224_update_eq sha384_update_eq sha512t_update_eq hash_sha256_update_binary_def
      hash_sha1_update_binary_def hash_sha512_update_binary_def update_binary_chunks)

text \<open>
  \<^verbatim>\<open>hash_private_md5_update_binary\<close> works with \<open>s = (uint32_t)size\<close>. A chunk whose size is
  a multiple of \<open>2 ^ 32\<close> leaves a fresh engine as it was, and of a chunk of \<open>N + 1\<close> bytes,
  \<open>N\<close> a positive multiple of \<open>2 ^ 32\<close>, only the first byte is taken.
\<close>

lemma md5_update_vanishes:
  assumes "int N mod 2 ^ 32 = 0" and "count m = [0, 0]"
  shows "hash_md5_update_binary m (replicate N c) = Some m"
  using assms
  by (simp add: hash_md5_update_binary_def hash_private_md5_update_binary_def Let_def store_def)

lemma md5_update_wraps:
  assumes "int N mod 2 ^ 32 = 0" and "0 < N" and "count m = [0, 0]"
  shows "hash_md5_update_binary m (replicate N c @ [d]) = hash_md5_update_binary m [c]"
proof -
  have "(int N + 1) mod 2 ^ 32 = (int N mod 2 ^ 32 + 1) mod 2 ^ 32"
    by (simp add: mod_add_left_eq)
  then have s: "(1 + int N) mod 2 ^ 32 = 1"
    using assms(1) by (simp add: add.commute)
  obtain N' where N: "N = Suc N'"
    using assms(2) by (cases N) simp_all
  show ?thesis
    using assms(3) s
    by (simp add: hash_md5_update_binary_def hash_private_md5_update_binary_def Let_def N)
qed

lemma md5_digest_of_byte_00:
  "md5_stream \<lparr>finalized = False, buffer_md5 = replicate 64 0, count = [], state = [], digest = [],
       transforms_md5 = 0\<rparr> [[CHR 0x00]] = Some ''93b885adfe0da089cdf634904fd59f71''"
  by code_simp

lemma md5_digest_of_byte_01:
  "md5_stream \<lparr>finalized = False, buffer_md5 = replicate 64 0, count = [], state = [], digest = [],
       transforms_md5 = 0\<rparr> [[CHR 0x01]] = Some ''55a54008ad1ba589aa210d2629c1df41''"
  by code_simp

lemma md5_stream_wraps:
  assumes "int N mod 2 ^ 32 = 0" and "0 < N"
  shows "md5_stream m [replicate N c @ [d]] = md5_stream m [[c]]"
    and "md5_stream m [replicate N c, [d]] = md5_stream m [[d]]"
  using assms
  by (simp_all add: md5_stream_def md5_update_wraps md5_update_vanishes hash_md5_init_def)

text \<open>
  Claim C2, for MD5 at the input of \<open>2 ^ 32\<close> bytes \<open>00\<close> followed by one byte \<open>01\<close>: one
  Update call with the whole input gives the MD5 digest of the single byte \<open>00\<close>; two Update
  calls, with the \<open>2 ^ 32\<close> bytes \<open>00\<close> and then with the byte \<open>01\<close>, give the MD5 digest of the
  single byte \<open>01\<close>.
\<close>

theorem md5_chunking_diverges:
  "md5_stream \<lparr>finalized = False, buffer_md5 = replicate 64 0, count = [], state = [], digest = [],
       transforms_md5 = 0\<rparr> [replicate (2 ^ 32) (CHR 0x00) @ [CHR 0x01]] =
     Some ''93b885adfe0da089cdf634904fd59f71'' \<and>
   md5_stream \<lparr>finalized = False, buffer_md5 = replicate 64 0, count = [], state = [], digest = [],
       transforms_md5 = 0\<rparr> [replicate (2 ^ 32) (CHR 0x00), [CHR 0x01]] =
     Some ''55a54008ad1ba589aa210d2629c1df41''"
proof -
  have N: "int (2 ^ 32) mod 2 ^ 32 = 0" "0 < (2 ^ 32 :: nat)"
    by simp_all
  show ?thesis
    by (simp only: md5_stream_wraps [OF N] md5_digest_of_byte_00 md5_digest_of_byte_01 simp_thms)
qed

subsection \<open>The padding of the Keccak sponge\<close>

lemma length_KeccakF1600: "length (KeccakF1600 st) = 200"
  by (simp add: KeccakF1600_def bytes_of_lanes_def length_concat o_def sum_list_triv)

lemma length_xor_block:
  "length block \<le> length st \<Longrightarrow> length (xor_block st block) = length st"
  by (simp add: xor_block_def)

lemma absorb_block_sem:
  assumes "0 < r" and "r \<le> 200" and "length (bytes sp) = 200"
  shows "length (bytes (fst (absorb_block r sp input))) = 200"
    and "snd (absorb_block r sp input) = (if r \<le> length input then 0 else length input)"
  using assms
  by (auto simp: absorb_block_def Let_def hash_private_keccak_KeccakF1600_StatePermute_def
      length_KeccakF1600 length_xor_block min_def)

lemma keccak_absorb_sem:
  assumes "0 < r" and "r \<le> 200"
  shows "length (bytes (fst sb)) = 200 \<Longrightarrow>
         length (bytes (fst (keccak_absorb r sb input))) = 200 \<and>
         snd (keccak_absorb r sb input) = (if input = [] then snd sb else length input mod r)"
proof (induction "length input" arbitrary: sb input rule: less_induct)
  case less
  show ?case
  proof (cases "input = []")
    case True
    then show ?thesis
      using less.prems by (simp add: keccak_absorb.simps [of r sb "[]"])
  next
    case False
    define sb' where "sb' = absorb_block r (fst sb) input"
    define rest where "rest = drop (min (length input) r) input"
    have step: "keccak_absorb r sb input = keccak_absorb r sb' rest"
      using False assms(1) by (simp add: keccak_absorb.simps [of r sb input] sb'_def rest_def)
    have len: "length (bytes (fst sb')) = 200"
      and bs: "snd sb' = (if r \<le> length input then 0 else length input)"
      unfolding sb'_def using absorb_block_sem [OF assms less.prems] by simp_all
    have "length rest < length input"
      using False assms(1) by (simp add: rest_def)
    from less.hyps [OF this len]
    have IH: "length (bytes (fst (keccak_absorb r sb' rest))) = 200"
      "snd (keccak_absorb r sb' rest) = (if rest = [] then snd sb' else length rest mod r)"
      by simp_all
    have "(if rest = [] then snd sb' else length rest mod r) = length input mod r"
    proof (cases "r \<le> length input")
      case True
      then have "length rest = length input - r"
        by (simp add: rest_def)
      then show ?thesis
        using True bs by (auto simp: le_mod_geq)
    next
      case False
      then show ?thesis
        using bs by (simp add: rest_def)
    qed
    then show ?thesis
      using IH False by (simp add: step)
  qed
qed

text \<open>
  Claim C8. When the absorbing loop of \<^verbatim>\<open>hash_private_keccak_Keccak\<close> ends, \<open>blockSize\<close> is
  the number of bytes absorbed since the last permutation, \<open>length input mod rateInBytes\<close>.
  The padding XORs \<open>delimitedSuffix\<close> into \<open>state[blockSize]\<close> and \<open>0x80\<close> into
  \<open>state[rateInBytes - 1]\<close>; between the two it runs one Keccak-f[1600] permutation when
  the high bit of \<open>delimitedSuffix\<close> is set and \<open>blockSize = rateInBytes - 1\<close>, and none in
  every other case. The field \<open>permutations\<close> counts the calls of the permutation.
\<close>

theorem keccak_padding:
  assumes "0 < rateInBytes" and "rateInBytes \<le> 200" and "length (bytes sp) = 200"
  shows "case keccak_absorb rateInBytes (sp, 0) input of (sp1, blockSize) \<Rightarrow>
           blockSize = length input mod rateInBytes \<and> length (bytes sp1) = 200 \<and>
           (let st1 = (bytes sp1)[blockSize := bytes sp1 ! blockSize XOR delimitedSuffix];
                extra = (delimitedSuffix AND 0x80 \<noteq> 0 \<and> blockSize = rateInBytes - 1);
                st2 = (if extra then KeccakF1600 st1 else st1)
            in bytes (keccak_pad rateInBytes delimitedSuffix (sp1, blockSize)) =
                 st2[rateInBytes - 1 := st2 ! (rateInBytes - 1) XOR 0x80] \<and>
               permutations (keccak_pad rateInBytes delimitedSuffix (sp1, blockSize)) =
                 permutations sp1 + (if extra then 1 else 0))"
proof -
  obtain sp1 blockSize where sb: "keccak_absorb rateInBytes (sp, 0) input = (sp1, blockSize)"
    by (cases "keccak_absorb rateInBytes (sp, 0) input")
  have "length (bytes (fst (keccak_absorb rateInBytes (sp, 0) input))) = 200 \<and>
      snd (keccak_absorb rateInBytes (sp, 0) input) =
        (if input = [] then snd (sp, 0 :: nat) else length input mod rateInBytes)"
    by (rule keccak_absorb_sem [OF assms(1,2)]) (simp add: assms(3))
  then have "length (bytes sp1) = 200" "blockSize = length input mod rateInBytes"
    by (auto simp: sb)
  then show ?thesis
    by (simp add: sb keccak_pad_def Let_def hash_private_keccak_KeccakF1600_StatePermute_def)
qed

theorem keccak_padding_witness:
  "case keccak_absorb 168 (\<lparr>bytes = replicate 200 0, permutations = 0\<rparr>, 0) [1, 2, 3] of (sp1, blockSize) \<Rightarrow>
     blockSize = length [1, 2, 3 :: int] mod 168 \<and> length (bytes sp1) = 200 \<and>
     (let st1 = (bytes sp1)[blockSize := bytes sp1 ! blockSize XOR 0x1F];
          extra = ((0x1F :: int) AND 0x80 \<noteq> 0 \<and> blockSize = 168 - 1);
          st2 = (if extra then KeccakF1600 st1 else st1)
      in bytes (keccak_pad 168 0x1F (sp1, blockSize)) = st2[168 - 1 := st2 ! (168 - 1) XOR 0x80] \<and>
         permutations (keccak_pad 168 0x1F (sp1, blockSize)) = permutations sp1 + (if extra then 1 else 0))"
  by (rule keccak_padding [of 168 "\<lparr>bytes = replicate 200 0, permutations = 0\<rparr>" "[1, 2, 3]" "0x1F"])
    simp_all

subsection \<open>The output length of SHAKE\<close>

lemma keccak_squeeze_done:
  "\<not> (0 < n \<and> 0 < r) \<Longrightarrow> keccak_squeeze r sp out n = out"
  by (subst keccak_squeeze.simps) auto

lemma keccak_squeeze_0: "keccak_squeeze r sp out 0 = out"
  by (simp add: keccak_squeeze_done)

lemma keccak_squeeze_acc:
  "keccak_squeeze r sp out n = out @ keccak_squeeze r sp [] n"
proof (induction n arbitrary: sp out rule: less_induct)
  case (less n)
  show ?case
  proof (cases "0 < n \<and> 0 < r")
    case False
    then show ?thesis
      by (simp add: keccak_squeeze_done)
  next
    case True
    define sp' where "sp' = (if 0 < n - min n r then hash_private_keccak_KeccakF1600_StatePermute sp else sp)"
    have step: "keccak_squeeze r sp out' n = keccak_squeeze r sp' (out' @ take (min n r) (bytes sp)) (n - min n r)"
      for out'
      using True by (simp add: keccak_squeeze.simps [of r sp out' n] Let_def sp'_def)
    have lt: "n - min n r < n"
      using True by simp
    show ?thesis
      by (simp add: step less.IH [OF lt, of sp' "out @ take (min n r) (bytes sp)"]
          less.IH [OF lt, of sp' "take (min n r) (bytes sp)"])
  qed
qed

lemma keccak_squeeze_step:
  assumes "0 < n" and "0 < r"
  shows "keccak_squeeze r sp [] n =
      take (min n r) (bytes sp) @
      keccak_squeeze r (if 0 < n - min n r then hash_private_keccak_KeccakF1600_StatePermute sp else sp) []
        (n - min n r)"
  using assms
  by (simp add: keccak_squeeze.simps [of r sp "[]" n] Let_def
      keccak_squeeze_acc [of r _ "take (min n r) (bytes sp)"])

lemma keccak_squeeze_length:
  assumes "0 < r" and "r \<le> 200"
  shows "length (bytes sp) = 200 \<Longrightarrow> length (keccak_squeeze r sp [] n) = n"
proof (induction n arbitrary: sp rule: less_induct)
  case (less n)
  show ?case
  proof (cases "0 < n")
    case False
    then show ?thesis
      by (simp add: keccak_squeeze_0)
  next
    case True
    have lt: "n - min n r < n"
      using True assms(1) by simp
    have "length (bytes (if 0 < n - min n r then hash_private_keccak_KeccakF1600_StatePermute sp else sp)) = 200"
      using less.prems by (simp add: hash_private_keccak_KeccakF1600_StatePermute_def length_KeccakF1600)
    from less.IH [OF lt this] show ?thesis
      using less.prems assms by (simp add: keccak_squeeze_step [OF True assms(1)])
  qed
qed

lemma keccak_squeeze_prefix:
  assumes "0 < r" and "r \<le> 200"
  shows "length (bytes sp) = 200 \<Longrightarrow> n \<le> m \<Longrightarrow>
         keccak_squeeze r sp [] n = take n (keccak_squeeze r sp [] m)"
proof (induction n arbitrary: sp m rule: less_induct)
  case (less n)
  show ?case
  proof (cases "0 < n")
    case False
    then show ?thesis
      by (simp add: keccak_squeeze_0)
  next
    case True
    then have m: "0 < m"
      using less.prems by simp
    show ?thesis
    proof (cases "n \<le> r")
      case True
      have "keccak_squeeze r sp [] n = take n (bytes sp)"
        using True \<open>0 < n\<close> assms(1)
        by (simp add: keccak_squeeze_step [OF \<open>0 < n\<close> assms(1)] keccak_squeeze_0)
      moreover have "take n (keccak_squeeze r sp [] m) = take n (bytes sp)"
        using True less.prems assms by (simp add: keccak_squeeze_step [OF m assms(1)])
      ultimately show ?thesis
        by simp
    next
      case False
      define sp' where "sp' = hash_private_keccak_KeccakF1600_StatePermute sp"
      have len: "length (bytes sp') = 200"
        by (simp add: sp'_def hash_private_keccak_KeccakF1600_StatePermute_def length_KeccakF1600)
      have n: "keccak_squeeze r sp [] n = take r (bytes sp) @ keccak_squeeze r sp' [] (n - r)"
        using False by (simp add: keccak_squeeze_step [OF \<open>0 < n\<close> assms(1)] sp'_def)
      have m': "keccak_squeeze r sp [] m = take r (bytes sp) @ keccak_squeeze r sp' [] (m - r)"
        using False less.prems by (simp add: keccak_squeeze_step [OF m assms(1)] sp'_def)
      have lt: "n - r < n"
        using False assms(1) by simp
      have "keccak_squeeze r sp' [] (n - r) = take (n - r) (keccak_squeeze r sp' [] (m - r))"
        using less.prems by (intro less.IH [OF lt len]) simp
      then show ?thesis
        using False less.prems assms by (simp add: n m')
    qed
  qed
qed

lemma hex_string_take:
  "hash_util_char_array_to_hex_string (take k data) =
     take (2 * k) (hash_util_char_array_to_hex_string data)"
proof (induction data arbitrary: k)
  case Nil
  then show ?case
    by (simp add: hash_util_char_array_to_hex_string_def)
next
  case (Cons byte data)
  then show ?case
    by (cases k) (simp_all add: hash_util_char_array_to_hex_string_def)
qed

lemma length_hex_string:
  "length (hash_util_char_array_to_hex_string data) = 2 * length data"
  by (induction data) (simp_all add: hash_util_char_array_to_hex_string_def)

lemma length_squeezing_state: "length (bytes (keccak_squeezing_state r d input)) = 200"
  by (simp add: keccak_squeezing_state_def hash_private_keccak_KeccakF1600_StatePermute_def
      length_KeccakF1600)

lemma hash_shake128_binary_eq:
  assumes "buffer_given \<longrightarrow> k \<le> 65"
  shows "hash_shake128_binary data k buffer_given =
     Inr (hash_util_char_array_to_hex_string
            (keccak_squeeze 168 (keccak_squeezing_state 168 0x1F (map of_char data)) [] (k div 2)))"
  using assms
  by (auto simp: hash_shake128_binary_def hash_private_keccak_Keccak_def Let_def
      HASH_SHAKE_128_MALLOC_LIMIT_def keccak_squeezing_state_def)

lemma hash_shake256_binary_eq:
  assumes "buffer_given \<longrightarrow> k \<le> 65"
  shows "hash_shake256_binary data k buffer_given =
     Inr (hash_util_char_array_to_hex_string
            (keccak_squeeze 136 (keccak_squeezing_state 136 0x1F (map of_char data)) [] (k div 2)))"
  using assms
  by (auto simp: hash_shake256_binary_def hash_private_keccak_Keccak_def Let_def
      HASH_SHAKE_256_MALLOC_LIMIT_def keccak_squeezing_state_def)

lemma shake_prefix:
  assumes "0 < r" and "r \<le> 200" and "n \<le> m"
  shows "hash_util_char_array_to_hex_string (keccak_squeeze r (keccak_squeezing_state r d input) [] (n div 2)) =
      take (2 * (n div 2))
        (hash_util_char_array_to_hex_string (keccak_squeeze r (keccak_squeezing_state r d input) [] (m div 2)))"
proof -
  have "n div 2 \<le> m div 2"
    using assms(3) by (rule div_le_mono)
  from keccak_squeeze_prefix [OF assms(1,2) length_squeezing_state this]
  show ?thesis
    by (simp add: hex_string_take [symmetric])
qed

text \<open>
  Claim C7 as it is written fails for the output lengths 1 and 2 on the empty input:
  with \<open>outsizeBytes = 1\<close> the function squeezes \<open>1 / 2 = 0\<close> bytes and returns the empty
  string, with \<open>outsizeBytes = 2\<close> it returns the two hexadecimal digits of one byte.
\<close>

theorem shake128_odd_length_not_prefix:
  "hash_shake128_binary '''' 1 False \<noteq> map_sum id (take 1) (hash_shake128_binary '''' 2 False) \<and>
   hash_shake128_binary '''' 1 False \<noteq> map_sum id (take 2) (hash_shake128_binary '''' 2 False)"
proof -
  define out where "out = hash_util_char_array_to_hex_string
      (keccak_squeeze 168 (keccak_squeezing_state 168 0x1F (map of_char '''')) [] (2 div 2))"
  have one: "hash_shake128_binary '''' 1 False = Inr ''''"
    by (simp add: hash_shake128_binary_eq keccak_squeeze_0 hash_util_char_array_to_hex_string_def)
  have two: "hash_shake128_binary '''' 2 False = Inr out"
    unfolding out_def by (rule hash_shake128_binary_eq) simp
  have "length out = 2"
    by (simp add: out_def length_hex_string keccak_squeeze_length length_squeezing_state)
  then have "take 1 out \<noteq> []" "take 2 out \<noteq> []"
    by auto
  then show ?thesis
    unfolding one two by simp
qed

text \<open>
  Claim C7, amended. The output length of \<^verbatim>\<open>hash_shake128_binary\<close> and
  \<^verbatim>\<open>hash_shake256_binary\<close> counts the hexadecimal digits of the result, two for each
  squeezed byte, and an odd length is rounded down. For \<open>n \<le> m\<close> the result for the length
  \<open>n\<close> is the first \<open>2 * (n div 2)\<close> characters of the result for the length \<open>m\<close> (its first
  \<open>n\<close> characters when \<open>n\<close> is even), and the result for \<open>m\<close> has \<open>2 * (m div 2)\<close> characters.
  With a buffer of the caller the lengths are at most 65, where the squeezed bytes fit
  \<^verbatim>\<open>intBuff\<close>.
\<close>

theorem shake_output_prefix:
  assumes "n \<le> m" and "buffer_given \<longrightarrow> m \<le> 65"
  shows "(\<exists>out. hash_shake128_binary b m buffer_given = Inr out \<and> length out = 2 * (m div 2) \<and>
            hash_shake128_binary b n buffer_given = Inr (take (2 * (n div 2)) out)) \<and>
         (\<exists>out. hash_shake256_binary b m buffer_given = Inr out \<and> length out = 2 * (m div 2) \<and>
            hash_shake256_binary b n buffer_given = Inr (take (2 * (n div 2)) out))"
proof -
  have n: "buffer_given \<longrightarrow> n \<le> 65"
    using assms by auto
  show ?thesis
    using shake_prefix [of 168 n m "0x1F" "map of_char b"] shake_prefix [of 136 n m "0x1F" "map of_char b"]
      assms(1)
    by (simp add: hash_shake128_binary_eq [OF n] hash_shake128_binary_eq [OF assms(2)]
        hash_shake256_binary_eq [OF n] hash_shake256_binary_eq [OF assms(2)]
        length_hex_string keccak_squeeze_length length_squeezing_state)
qed

theorem shake_output_prefix_witness:
  "(\<exists>out. hash_shake128_binary ''abc'' 64 False = Inr out \<and> length out = 2 * (64 div 2) \<and>
      hash_shake128_binary ''abc'' 7 False = Inr (take (2 * (7 div 2)) out)) \<and>
   (\<exists>out. hash_shake256_binary ''abc'' 64 False = Inr out \<and> length out = 2 * (64 div 2) \<and>
      hash_shake256_binary ''abc'' 7 False = Inr (take (2 * (7 div 2)) out))"
  by (rule shake_output_prefix [of 7 64 False "''abc''"]) simp_all

subsection \<open>SHA-512/224\<close>




































end
